theory Spec2Isabelle
  imports Complex_Main "HOL-Library.Multiset" "HOL-Library.Product_Lexorder"
begin

section \<open>Data model\<close>

text \<open>
  The parser module works on Python values decoded from JSON text. A decoded value is
  \<open>None\<close>, a \<open>bool\<close>, an \<open>int\<close>, a \<open>float\<close>, a \<open>str\<close>, a \<open>list\<close> or a \<open>dict\<close>.
  A \<open>dict\<close> is held as the list of its items in iteration (insertion) order; the keys of
  a Python \<open>dict\<close> are pairwise distinct, so \<open>map_of\<close> is its lookup.
  A \<open>str\<close> is a \<open>string\<close>; one \<open>char\<close> stands for one code point below 256.
\<close>

subsection \<open>Floats\<close>

text \<open>
  A Python \<open>float\<close> is an IEEE 754 double: a finite number, one of the two infinities,
  or NaN. \<open>json.loads\<close> produces all of them: \<open>1e400\<close> decodes to \<open>inf\<close>, \<open>-1e400\<close> to
  \<open>-inf\<close>, and the literals \<open>Infinity\<close>, \<open>-Infinity\<close> and \<open>NaN\<close> are accepted. The two
  zeros \<open>0.0\<close> and \<open>-0.0\<close> compare equal and are one value here.

  The result of an operation on finite numbers is the exact result rounded to a double,
  or an infinity when that is beyond the double range. The rounding is a parameter
  \<open>rnd\<close> of the model, and nothing is assumed of it.
\<close>

datatype pyfloat = Finite real | PosInf | NegInf | NaN

type_synonym rounding = "real \<Rightarrow> pyfloat"

text \<open>
  \<open>x + y\<close>: NaN when an operand is NaN or the operands are infinities of opposite
  signs, the infinity when one operand is infinite, the rounded sum otherwise.
\<close>

fun float_add :: "rounding \<Rightarrow> pyfloat \<Rightarrow> pyfloat \<Rightarrow> pyfloat" where
  "float_add rnd (Finite a) (Finite b) = rnd (a + b)"
| "float_add rnd NaN y = NaN"
| "float_add rnd x NaN = NaN"
| "float_add rnd PosInf NegInf = NaN"
| "float_add rnd NegInf PosInf = NaN"
| "float_add rnd PosInf y = PosInf"
| "float_add rnd x PosInf = PosInf"
| "float_add rnd NegInf y = NegInf"
| "float_add rnd x NegInf = NegInf"

text \<open>
  The comparisons \<open>x < y\<close>, \<open>x == y\<close> and \<open>x >= y\<close>: each of them is false as soon as an
  operand is NaN.
\<close>

fun float_lt :: "pyfloat \<Rightarrow> pyfloat \<Rightarrow> bool" where
  "float_lt (Finite a) (Finite b) = (a < b)"
| "float_lt NaN y = False"
| "float_lt x NaN = False"
| "float_lt x NegInf = False"
| "float_lt NegInf y = True"
| "float_lt PosInf y = False"
| "float_lt x PosInf = True"

fun float_eq :: "pyfloat \<Rightarrow> pyfloat \<Rightarrow> bool" where
  "float_eq NaN y = False"
| "float_eq x NaN = False"
| "float_eq x y = (x = y)"

fun float_ge :: "pyfloat \<Rightarrow> pyfloat \<Rightarrow> bool" where
  "float_ge (Finite a) (Finite b) = (a \<ge> b)"
| "float_ge NaN y = False"
| "float_ge x NaN = False"
| "float_ge x NegInf = True"
| "float_ge NegInf y = False"
| "float_ge PosInf y = True"
| "float_ge x PosInf = False"

subsection \<open>Decoded values and exceptions\<close>

datatype json =
    JNull
  | JBool bool
  | JInt int
  | JFloat pyfloat
  | JStr string
  | JList "json list"
  | JObj "(string \<times> json) list"

text \<open>
  The exceptions the module can raise. The first two are the \<open>ValueError\<close>s that
  \<open>extract_json_object\<close> raises itself, told apart by their messages
  (\<open>Could not find variable '<name>' in content\<close> and
  \<open>Failed to parse JSON for '<name>': <diagnostic>\<close>); \<open>FloatValueError\<close> is the
  \<open>ValueError\<close> of \<open>float(<str>)\<close>, with its argument; \<open>OverflowError\<close> is raised by
  \<open>float(<int>)\<close> on an integer too large for a double; \<open>AttributeError\<close> is raised by
  \<open>.get\<close> and \<open>.items\<close> on a value that is not a \<open>dict\<close>.
\<close>

datatype error =
    NotFoundError string
  | DecodeError string string
  | FloatValueError string
  | OverflowError
  | AttributeError

text \<open>
  An exception ends the computation: \<open>ebind m f\<close> runs \<open>f\<close> on the value of \<open>m\<close>, or
  passes on the exception that \<open>m\<close> raised.
\<close>

definition ebind :: "error + 'a \<Rightarrow> ('a \<Rightarrow> error + 'b) \<Rightarrow> error + 'b" where
  "ebind m f = (case m of Inl e \<Rightarrow> Inl e | Inr x \<Rightarrow> f x)"

section \<open>Characters and library functions on strings\<close>

text \<open>
  \<open>is_space\<close> is the class \<open>\s\<close> of \<open>re\<close> on \<open>str\<close> patterns and the set that
  \<open>str.strip()\<close> removes: the code points 9 to 13, 28 to 32, 133 and 160 (below 256).
  \<open>is_digit\<close> is the class \<open>\d\<close> (below 256: the ASCII digits).
\<close>

definition is_space :: "char \<Rightarrow> bool" where
  "is_space c =
     (let n = (of_char c :: nat)
      in (9 \<le> n \<and> n \<le> 13) \<or> (28 \<le> n \<and> n \<le> 32) \<or> n = 133 \<or> n = 160)"

definition is_digit :: "char \<Rightarrow> bool" where
  "is_digit c = (let n = (of_char c :: nat) in 48 \<le> n \<and> n \<le> 57)"

definition strip :: "string \<Rightarrow> string" where
  "strip s = rev (dropWhile is_space (rev (dropWhile is_space s)))"

definition digit_val :: "char \<Rightarrow> nat" where
  "digit_val c = of_char c - 48"

definition digits_to_nat :: "string \<Rightarrow> nat" where
  "digits_to_nat s = foldl (\<lambda>a c. 10 * a + digit_val c) 0 s"

text \<open>
  \<open>float(s)\<close> for a string \<open>s\<close> of ASCII digits and dots, the only arguments
  \<open>clean_score\<close> passes: \<open>digits\<close>, \<open>digits.\<close>, \<open>.digits\<close> and \<open>digits.digits\<close>
  parse, to the double nearest to the number written (an infinity when that is beyond
  the double range); everything else (no digit at all, or a second dot) raises
  \<open>ValueError\<close>.
\<close>

definition py_float_str :: "rounding \<Rightarrow> string \<Rightarrow> error + pyfloat" where
  "py_float_str rnd s =
     (let ip = takeWhile is_digit s; r = dropWhile is_digit s
      in case r of
           [] \<Rightarrow> if ip = [] then Inl (FloatValueError s)
                  else Inr (rnd (real (digits_to_nat ip)))
         | c # fp \<Rightarrow>
             if c = CHR ''.'' \<and> list_all is_digit fp \<and> (ip \<noteq> [] \<or> fp \<noteq> [])
             then Inr (rnd (real (digits_to_nat ip) + real (digits_to_nat fp) / 10 ^ length fp))
             else Inl (FloatValueError s))"

section \<open>Score normalisation: \<open>clean_score\<close>\<close>

text \<open>
  \<open>isinstance(value, (int, float))\<close>: \<open>bool\<close> is a subclass of \<open>int\<close>, so it holds of
  \<open>True\<close> and \<open>False\<close> too. \<open>py_float\<close> is \<open>float(value)\<close> on such a value: a float is
  returned as it is, infinities and NaN included; an integer is rounded to the nearest
  double, and \<open>OverflowError\<close> is raised when that is beyond the largest double, which
  is the case from \<open>2 ^ 1024 - 2 ^ 970\<close> on. The last clause is never evaluated:
  \<open>clean_score\<close> checks the type first.
\<close>

fun isinstance_int_float :: "json \<Rightarrow> bool" where
  "isinstance_int_float (JBool b) = True"
| "isinstance_int_float (JInt n) = True"
| "isinstance_int_float (JFloat x) = True"
| "isinstance_int_float v = False"

fun py_float :: "rounding \<Rightarrow> json \<Rightarrow> error + pyfloat" where
  "py_float rnd (JBool b) = Inr (Finite (of_bool b))"
| "py_float rnd (JInt n) =
     (if \<bar>n\<bar> \<ge> 2 ^ 1024 - 2 ^ 970 then Inl OverflowError else Inr (rnd (of_int n)))"
| "py_float rnd (JFloat x) = Inr x"
| "py_float rnd v = Inr (Finite 0)"

fun isinstance_str :: "json \<Rightarrow> bool" where
  "isinstance_str (JStr s) = True"
| "isinstance_str v = False"

fun str_of :: "json \<Rightarrow> string" where
  "str_of (JStr s) = s"
| "str_of v = []"

text \<open>
  \<open>re.match(r'^([\d.]+)', t)\<close>: the longest non-empty prefix of digits and dots, in
  any number and order, or no match.
\<close>

definition numeric_match :: "string \<Rightarrow> string option" where
  "numeric_match t =
     (let g = takeWhile (\<lambda>c. is_digit c \<or> c = CHR ''.'') t
      in if g = [] then None else Some g)"

definition clean_score :: "rounding \<Rightarrow> json \<Rightarrow> error + pyfloat" where
  "clean_score rnd v =
     (if v = JNull then Inr (Finite 0)
      else if isinstance_int_float v then py_float rnd v
      else if isinstance_str v then
        (if strip (str_of v) \<in> set [''-'', '''', ''NA'', ''N/A''] then Inr (Finite 0)
         else case numeric_match (strip (str_of v)) of
                Some g \<Rightarrow> py_float_str rnd g
              | None \<Rightarrow> Inr (Finite 0))
      else Inr (Finite 0))"

section \<open>Object extraction: \<open>extract_json_object\<close>\<close>


fun strip_prefix :: "string \<Rightarrow> string \<Rightarrow> string option" where
  "strip_prefix [] s = Some s"
| "strip_prefix (p # ps) [] = None"
| "strip_prefix (p # ps) (c # cs) = (if p = c then strip_prefix ps cs else None)"

text \<open>
  \<open>match_assign\<close> is the tail \<open>NAME\s*=\s*(\{)\<close> of the pattern, matched at the head of
  \<open>s\<close>; it returns the offset of the brace from the head of \<open>s\<close>. Neither \<open>=\<close> nor
  \<open>{\<close> is white space, so the greedy \<open>\s*\<close> never has to give a character back.
\<close>

definition match_assign :: "string \<Rightarrow> string \<Rightarrow> nat option" where
  "match_assign var_name s =
     (case strip_prefix var_name s of
        None \<Rightarrow> None
      | Some r \<Rightarrow>
          (case dropWhile is_space r of
             [] \<Rightarrow> None
           | c # r2 \<Rightarrow>
               if c = CHR ''='' then
                 (case dropWhile is_space r2 of
                    [] \<Rightarrow> None
                  | b # r3 \<Rightarrow>
                      if b = CHR ''{''
                      then Some (length var_name + length (takeWhile is_space r) + 1
                                 + length (takeWhile is_space r2))
                      else None)
               else None))"

text \<open>
  \<open>space_plus k\<close> is \<open>\s+\<close> followed by the rest \<open>k\<close> of the pattern: greedy, it first
  tries to take one more white-space character, and falls back to \<open>k\<close> when that fails.
  It returns the offset that \<open>k\<close> returns, counted from the head of the string.
\<close>

fun space_plus :: "(string \<Rightarrow> nat option) \<Rightarrow> string \<Rightarrow> nat option" where
  "space_plus k [] = None"
| "space_plus k (c # cs) =
     (if is_space c
      then (case space_plus k cs of
              Some n \<Rightarrow> Some (Suc n)
            | None \<Rightarrow> map_option Suc (k cs))
      else None)"

definition match_here :: "string \<Rightarrow> string \<Rightarrow> nat option" where
  "match_here var_name s =
     (case strip_prefix ''const'' s of
        None \<Rightarrow> None
      | Some r \<Rightarrow> map_option (\<lambda>n. 5 + n) (space_plus (match_assign var_name) r))"

text \<open>
  \<open>re.search(pattern, content)\<close> followed by \<open>match.start(1)\<close>: the index of the brace of
  the leftmost match, or \<open>None\<close>.
\<close>

fun re_search :: "string \<Rightarrow> string \<Rightarrow> nat option" where
  "re_search var_name [] = None"
| "re_search var_name (c # cs) =
     (case match_here var_name (c # cs) of
        Some n \<Rightarrow> Some n
      | None \<Rightarrow> map_option Suc (re_search var_name cs))"

text \<open>
  The brace-matching loop over \<open>content[start_pos:]\<close>, with the running index \<open>i\<close>, the
  counter \<open>brace_count\<close> and the value \<open>end_pos\<close> that is kept when the loop runs to the
  end of the text without a \<open>break\<close>.
\<close>

fun find_end :: "string \<Rightarrow> nat \<Rightarrow> int \<Rightarrow> nat \<Rightarrow> nat" where
  "find_end [] i brace_count end_pos = end_pos"
| "find_end (c # cs) i brace_count end_pos =
     (if c = CHR ''{'' then find_end cs (i + 1) (brace_count + 1) end_pos
      else if c = CHR ''}'' then
        (if brace_count - 1 = 0 then i + 1
         else find_end cs (i + 1) (brace_count - 1) end_pos)
      else find_end cs (i + 1) brace_count end_pos)"

definition json_str_of :: "string \<Rightarrow> nat \<Rightarrow> string" where
  "json_str_of content start_pos =
     (let end_pos = find_end (drop start_pos content) start_pos 0 start_pos
      in take (end_pos - start_pos) (drop start_pos content))"

text \<open>
  \<open>json.loads\<close> is a library function and a parameter of the model: \<open>loads\<close> returns
  the decoded value or the diagnostic of \<open>JSONDecodeError\<close>.
\<close>

type_synonym decoder = "string \<Rightarrow> string + json"

definition extract_json_object :: "decoder \<Rightarrow> string \<Rightarrow> string \<Rightarrow> error + json" where
  "extract_json_object loads content var_name =
     (case re_search var_name content of
        None \<Rightarrow> Inl (NotFoundError var_name)
      | Some start_pos \<Rightarrow>
          (case loads (json_str_of content start_pos) of
             Inl e \<Rightarrow> Inl (DecodeError var_name e)
           | Inr v \<Rightarrow> Inr v))"

section \<open>Merging and ranking: \<open>parse_html_file_content\<close>\<close>

text \<open>
  A record before the ranking loop has six keys; the loop adds \<open>Rank\<close>. \<open>Name\<close> and
  \<open>RollNo\<close> hold whatever value the identity object has under \<open>Name\<close> and \<open>regdNo\<close>.
\<close>

record scored =
  Name :: json
  RollNo :: json
  OverallPseudocode :: pyfloat
  OverallCoding :: pyfloat
  OverallDailyTest :: pyfloat
  Total :: pyfloat

record student_record = scored +
  Rank :: nat

text \<open>\<open>d.get(k, default)\<close> and \<open>d.items()\<close>; both need a \<open>dict\<close>.\<close>

fun py_get :: "json \<Rightarrow> string \<Rightarrow> json \<Rightarrow> error + json" where
  "py_get (JObj kvs) k d = Inr (case map_of kvs k of Some v \<Rightarrow> v | None \<Rightarrow> d)"
| "py_get v k d = Inl AttributeError"

fun py_items :: "json \<Rightarrow> error + (string \<times> json) list" where
  "py_items (JObj kvs) = Inr kvs"
| "py_items v = Inl AttributeError"

definition get_score :: "rounding \<Rightarrow> json \<Rightarrow> string \<Rightarrow> error + pyfloat" where
  "get_score rnd overall_data k = ebind (py_get overall_data k (JInt 0)) (clean_score rnd)"

text \<open>
  One pass of the loop body: the lookup of the score object, the record literal (its
  entries evaluated in the order written) and the total, which is
  \<open>(OverallPseudocode + OverallCoding) + OverallDailyTest\<close> in float arithmetic.
\<close>

definition make_record :: "rounding \<Rightarrow> string \<Rightarrow> json \<Rightarrow> json \<Rightarrow> error + scored" where
  "make_record rnd roll_no core_data manual_overall =
     ebind (py_get manual_overall roll_no (JObj [])) (\<lambda>overall_data.
     ebind (py_get core_data ''Name'' (JStr ''Unknown'')) (\<lambda>name.
     ebind (py_get core_data ''regdNo'' (JStr roll_no)) (\<lambda>regd.
     ebind (get_score rnd overall_data ''OverallPseudocode'') (\<lambda>p.
     ebind (get_score rnd overall_data ''OverallCoding'') (\<lambda>c.
     ebind (get_score rnd overall_data ''OverallDaily'') (\<lambda>d.
       Inr \<lparr>Name = name, RollNo = regd, OverallPseudocode = p, OverallCoding = c,
            OverallDailyTest = d, Total = float_add rnd (float_add rnd p c) d\<rparr>))))))"

fun build_records ::
  "rounding \<Rightarrow> (string \<times> json) list \<Rightarrow> json \<Rightarrow> error + scored list" where
  "build_records rnd [] manual_overall = Inr []"
| "build_records rnd ((roll_no, core_data) # rest) manual_overall =
     (case make_record rnd roll_no core_data manual_overall of
        Inl e \<Rightarrow> Inl e
      | Inr record \<Rightarrow>
          (case build_records rnd rest manual_overall of
             Inl e \<Rightarrow> Inl e
           | Inr records \<Rightarrow> Inr (record # records)))"

text \<open>
  \<open>list.sort\<close> of CPython (\<open>listobject.c\<close>) compares two elements with \<open><\<close> on their keys
  and with nothing else; \<open>lt\<close> below is that comparison. The sort first finds the run at
  the head of the list (\<open>count_run\<close>): the longest prefix that never descends, or the
  longest prefix that strictly descends, which it then reverses in place.
\<close>

fun count_asc :: "('a \<Rightarrow> 'a \<Rightarrow> bool) \<Rightarrow> 'a \<Rightarrow> 'a list \<Rightarrow> nat" where
  "count_asc lt prev [] = 0"
| "count_asc lt prev (x # xs) = (if lt x prev then 0 else Suc (count_asc lt x xs))"

fun count_desc :: "('a \<Rightarrow> 'a \<Rightarrow> bool) \<Rightarrow> 'a \<Rightarrow> 'a list \<Rightarrow> nat" where
  "count_desc lt prev [] = 0"
| "count_desc lt prev (x # xs) = (if lt x prev then Suc (count_desc lt x xs) else 0)"

definition count_run :: "('a \<Rightarrow> 'a \<Rightarrow> bool) \<Rightarrow> 'a list \<Rightarrow> nat \<times> bool" where
  "count_run lt a =
     (case a of
        [] \<Rightarrow> (0, False)
      | [x] \<Rightarrow> (1, False)
      | x # y # rest \<Rightarrow>
          if lt y x then (2 + count_desc lt y rest, True)
          else (2 + count_asc lt y rest, False))"

text \<open>
  The elements after the run are inserted into it one by one (\<open>binarysort\<close>). The place
  of \<open>pivot\<close> in the sorted part \<open>a\<close> is found by the binary search
  \<open>do { p = l + ((r - l) >> 1); if (pivot < a[p]) r = p; else l = p + 1; } while (l < r)\<close>,
  entered with \<open>l = 0\<close> and \<open>r\<close> the length of the sorted part, which is not empty.
\<close>

function bin_search :: "('a \<Rightarrow> 'a \<Rightarrow> bool) \<Rightarrow> 'a list \<Rightarrow> 'a \<Rightarrow> nat \<Rightarrow> nat \<Rightarrow> nat" where
  "bin_search lt a pivot l r =
     (let p = l + (r - l) div 2;
          l' = (if lt pivot (a ! p) then l else p + 1);
          r' = (if lt pivot (a ! p) then p else r)
      in if l' < r' then bin_search lt a pivot l' r' else l')"
  by pat_completeness auto
termination
  by (relation "measure (\<lambda>(lt, a, pivot, l, r). r - l)") (auto split: if_splits)

declare bin_search.simps [simp del]

fun binarysort :: "('a \<Rightarrow> 'a \<Rightarrow> bool) \<Rightarrow> 'a list \<Rightarrow> 'a list \<Rightarrow> 'a list" where
  "binarysort lt a [] = a"
| "binarysort lt a (pivot # rest) =
     (let l = bin_search lt a pivot 0 (length a)
      in binarysort lt (take l a @ pivot # drop l a) rest)"

text \<open>
  The ascending sort. A list of fewer than two elements is left as it is. For a list of
  fewer than 64 elements the steps below are all that \<open>list.sort\<close> does. A longer list is
  cut into runs made in this way, of 32 to 64 elements each, which are then merged; when
  no key is NaN the merged list is the stably sorted one, and that is also what the steps
  below give (lemma \<open>list_sort_eq_sort_key\<close>). The order that the merge leaves among 64
  or more elements when a key is NaN is not modelled.
\<close>

definition list_sort :: "('a \<Rightarrow> 'a \<Rightarrow> bool) \<Rightarrow> 'a list \<Rightarrow> 'a list" where
  "list_sort lt xs =
     (if length xs < 2 then xs
      else let (n, descending) = count_run lt xs;
               run = (if descending then rev (take n xs) else take n xs)
           in binarysort lt run (drop n xs))"

text \<open>
  \<open>list.sort(key=..., reverse=True)\<close> with float keys: the list is reversed, sorted
  ascending, and the result reversed.
\<close>

definition py_sort_reverse :: "('a \<Rightarrow> pyfloat) \<Rightarrow> 'a list \<Rightarrow> 'a list" where
  "py_sort_reverse key xs = rev (list_sort (\<lambda>a b. float_lt (key a) (key b)) (rev xs))"

text \<open>
  The ranking loop over \<open>enumerate(records)\<close>: \<open>records\<close> is the whole sorted list,
  \<open>i\<close> the index and the last argument the records still to visit.
\<close>

fun rank_loop :: "scored list \<Rightarrow> nat \<Rightarrow> nat \<Rightarrow> scored list \<Rightarrow> student_record list" where
  "rank_loop records i current_rank [] = []"
| "rank_loop records i current_rank (record # rest) =
     (let current_rank' =
            (if i > 0 \<and> float_lt (Total record) (Total (records ! (i - 1)))
             then i + 1 else current_rank)
      in scored.extend record \<lparr>Rank = current_rank'\<rparr>
         # rank_loop records (i + 1) current_rank' rest)"

definition assign_ranks :: "scored list \<Rightarrow> student_record list" where
  "assign_ranks records = rank_loop records 0 1 records"

text \<open>The part of \<open>parse_html_file_content\<close> after the two extractions.\<close>

definition merge_records :: "rounding \<Rightarrow> json \<Rightarrow> json \<Rightarrow> error + student_record list" where
  "merge_records rnd student_core manual_overall =
     (case py_items student_core of
        Inl e \<Rightarrow> Inl e
      | Inr items \<Rightarrow>
          (case build_records rnd items manual_overall of
             Inl e \<Rightarrow> Inl e
           | Inr records \<Rightarrow> Inr (assign_ranks (py_sort_reverse Total records))))"

definition parse_html_file_content ::
  "rounding \<Rightarrow> decoder \<Rightarrow> string \<Rightarrow> error + student_record list" where
  "parse_html_file_content rnd loads content =
     (case extract_json_object loads content ''studentCore'' of
        Inl e \<Rightarrow> Inl e
      | Inr student_core \<Rightarrow>
          (case extract_json_object loads content ''manualOverall'' of
             Inl e \<Rightarrow> Inl e
           | Inr manual_overall \<Rightarrow> merge_records rnd student_core manual_overall))"
section \<open>Notions used in the statements\<close>





text \<open>
  The value of \<open>current_rank\<close> after the ranking loop has visited the record \<open>x\<close> that
  follows the records \<open>pre\<close>.
\<close>

definition next_rank :: "scored list \<Rightarrow> nat \<Rightarrow> scored \<Rightarrow> nat" where
  "next_rank pre cur x =
     (if pre \<noteq> [] \<and> float_lt (Total x) (Total (last pre)) then length pre + 1 else cur)"

text \<open>
  The sum \<open>OverallPseudocode + OverallCoding + OverallDailyTest\<close> of a record, evaluated
  from left to right as Python does.
\<close>

definition component_sum :: "rounding \<Rightarrow> 'a scored_scheme \<Rightarrow> pyfloat" where
  "component_sum rnd r =
     float_add rnd (float_add rnd (OverallPseudocode r) (OverallCoding r)) (OverallDailyTest r)"

definition is_finite :: "pyfloat \<Rightarrow> bool" where
  "is_finite x = (case x of Finite a \<Rightarrow> True | PosInf \<Rightarrow> False | NegInf \<Rightarrow> False | NaN \<Rightarrow> False)"

text \<open>
  The floats other than NaN are totally ordered by \<open><\<close>; \<open>float_key\<close> places them in
  that order (lemma \<open>float_lt_key\<close>).
\<close>

fun float_key :: "pyfloat \<Rightarrow> nat \<times> real" where
  "float_key NegInf = (0, 0)"
| "float_key (Finite a) = (1, a)"
| "float_key PosInf = (2, 0)"
| "float_key NaN = (3, 0)"

text \<open>
  Data for the instances. \<open>exact_rounding\<close> keeps a number within the double range as it
  is, which is what rounding to the nearest double does to a number that is a double;
  the numbers of the instances are small integers. \<open>loads_empty_object\<close> is a decoder
  that accepts the empty object and rejects every other text.
\<close>

definition exact_rounding :: rounding where
  "exact_rounding x =
     (if x \<ge> 2 ^ 1024 - 2 ^ 970 then PosInf
      else if x \<le> - (2 ^ 1024 - 2 ^ 970) then NegInf
      else Finite x)"


text \<open>
  Three identities, of which the second has no scores, and the records they merge to.
\<close>

definition example_identities :: "(string \<times> json) list" where
  "example_identities =
     [(''R1'', JObj [(''Name'', JStr ''A'')]),
      (''R2'', JObj [(''regdNo'', JStr ''X2'')]),
      (''R3'', JObj [(''Name'', JStr ''C''), (''regdNo'', JStr ''X3'')])]"

definition example_scores :: "(string \<times> json) list" where
  "example_scores =
     [(''R1'', JObj [(''OverallPseudocode'', JInt 50), (''OverallCoding'', JStr ''-''),
                     (''OverallDaily'', JStr ''30(Late)'')]),
      (''R3'', JObj [(''OverallPseudocode'', JFloat (Finite 40)), (''OverallDaily'', JStr ''40'')])]"

definition example_records :: "scored list" where
  "example_records =
     [\<lparr>Name = JStr ''A'', RollNo = JStr ''R1'', OverallPseudocode = Finite 50,
       OverallCoding = Finite 0, OverallDailyTest = Finite 30, Total = Finite 80\<rparr>,
      \<lparr>Name = JStr ''Unknown'', RollNo = JStr ''X2'', OverallPseudocode = Finite 0,
       OverallCoding = Finite 0, OverallDailyTest = Finite 0, Total = Finite 0\<rparr>,
      \<lparr>Name = JStr ''C'', RollNo = JStr ''X3'', OverallPseudocode = Finite 40,
       OverallCoding = Finite 0, OverallDailyTest = Finite 40, Total = Finite 80\<rparr>]"

definition example_out :: "student_record list" where
  "example_out =
     [\<lparr>Name = JStr ''A'', RollNo = JStr ''R1'', OverallPseudocode = Finite 50,
       OverallCoding = Finite 0, OverallDailyTest = Finite 30, Total = Finite 80, Rank = 1\<rparr>,
      \<lparr>Name = JStr ''C'', RollNo = JStr ''X3'', OverallPseudocode = Finite 40,
       OverallCoding = Finite 0, OverallDailyTest = Finite 40, Total = Finite 80, Rank = 1\<rparr>,
      \<lparr>Name = JStr ''Unknown'', RollNo = JStr ''X2'', OverallPseudocode = Finite 0,
       OverallCoding = Finite 0, OverallDailyTest = Finite 0, Total = Finite 0, Rank = 3\<rparr>]"

text \<open>
  Two identities, where the first has the score \<open>"1.2.3"\<close> and the second has no scores.
\<close>

definition malformed_identities :: "(string \<times> json) list" where
  "malformed_identities =
     [(''R1'', JObj [(''Name'', JStr ''A'')]),
      (''R2'', JObj [(''Name'', JStr ''B'')])]"

definition malformed_scores :: "(string \<times> json) list" where
  "malformed_scores = [(''R1'', JObj [(''OverallCoding'', JStr ''1.2.3'')])]"

text \<open>
  Three identities, where the scores of the second are the values that \<open>json.loads\<close>
  gives for \<open>1e400\<close> and \<open>-1e400\<close>, and the records they merge to: the total of the second
  is \<open>inf + -inf\<close>, which is NaN, the sort leaves the totals \<open>100.0, nan, 90.0\<close> in this
  order, and the three ranks are 1.
\<close>

definition nan_identities :: "(string \<times> json) list" where
  "nan_identities =
     [(''R1'', JObj [(''Name'', JStr ''A'')]),
      (''R2'', JObj [(''Name'', JStr ''B'')]),
      (''R3'', JObj [(''Name'', JStr ''C'')])]"

definition nan_scores :: "(string \<times> json) list" where
  "nan_scores =
     [(''R1'', JObj [(''OverallPseudocode'', JInt 100)]),
      (''R2'', JObj [(''OverallPseudocode'', JFloat PosInf), (''OverallCoding'', JFloat NegInf)]),
      (''R3'', JObj [(''OverallPseudocode'', JInt 90)])]"

definition nan_records :: "scored list" where
  "nan_records =
     [\<lparr>Name = JStr ''A'', RollNo = JStr ''R1'', OverallPseudocode = Finite 100,
       OverallCoding = Finite 0, OverallDailyTest = Finite 0, Total = Finite 100\<rparr>,
      \<lparr>Name = JStr ''B'', RollNo = JStr ''R2'', OverallPseudocode = PosInf,
       OverallCoding = NegInf, OverallDailyTest = Finite 0, Total = NaN\<rparr>,
      \<lparr>Name = JStr ''C'', RollNo = JStr ''R3'', OverallPseudocode = Finite 90,
       OverallCoding = Finite 0, OverallDailyTest = Finite 0, Total = Finite 90\<rparr>]"

definition nan_out :: "student_record list" where
  "nan_out =
     [\<lparr>Name = JStr ''A'', RollNo = JStr ''R1'', OverallPseudocode = Finite 100,
       OverallCoding = Finite 0, OverallDailyTest = Finite 0, Total = Finite 100, Rank = 1\<rparr>,
      \<lparr>Name = JStr ''B'', RollNo = JStr ''R2'', OverallPseudocode = PosInf,
       OverallCoding = NegInf, OverallDailyTest = Finite 0, Total = NaN, Rank = 1\<rparr>,
      \<lparr>Name = JStr ''C'', RollNo = JStr ''R3'', OverallPseudocode = Finite 90,
       OverallCoding = Finite 0, OverallDailyTest = Finite 0, Total = Finite 90, Rank = 1\<rparr>]"

section \<open>Exceptions and lookups\<close>

lemma ebind_Inr_iff: "ebind m f = Inr y \<longleftrightarrow> (\<exists>x. m = Inr x \<and> f x = Inr y)"
  by (cases m) (simp_all add: ebind_def)

lemma ebind_Inl_iff: "ebind m f = Inl e \<longleftrightarrow> (m = Inl e \<or> (\<exists>x. m = Inr x \<and> f x = Inl e))"
  by (cases m) (simp_all add: ebind_def)


lemma make_record_Inr:
  assumes "make_record rnd roll_no core_data manual_overall = Inr r"
  shows "\<exists>overall_data.
           py_get manual_overall roll_no (JObj []) = Inr overall_data \<and>
           py_get core_data ''Name'' (JStr ''Unknown'') = Inr (Name r) \<and>
           py_get core_data ''regdNo'' (JStr roll_no) = Inr (RollNo r) \<and>
           get_score rnd overall_data ''OverallPseudocode'' = Inr (OverallPseudocode r) \<and>
           get_score rnd overall_data ''OverallCoding'' = Inr (OverallCoding r) \<and>
           get_score rnd overall_data ''OverallDaily'' = Inr (OverallDailyTest r) \<and>
           Total r = component_sum rnd r"
  using assms unfolding make_record_def ebind_Inr_iff component_sum_def by auto

lemma build_records_length:
  "build_records rnd ids mo = Inr rs \<Longrightarrow> length rs = length ids"
  by (induction rnd ids mo arbitrary: rs rule: build_records.induct)
     (auto split: sum.splits)

lemma build_records_nth:
  "build_records rnd ids mo = Inr rs \<Longrightarrow> i < length ids \<Longrightarrow>
     make_record rnd (fst (ids ! i)) (snd (ids ! i)) mo = Inr (rs ! i)"
proof (induction rnd ids mo arbitrary: rs i rule: build_records.induct)
  case (1 rnd mo)
  then show ?case by simp
next
  case (2 rnd roll_no core_data rest mo)
  then show ?case by (cases i) (auto split: sum.splits)
qed

section \<open>The order of the floats\<close>

lemma float_lt_key:
  "x \<noteq> NaN \<Longrightarrow> y \<noteq> NaN \<Longrightarrow> float_lt x y = (float_key x < float_key y)"
  by (cases x; cases y) simp_all

lemma float_ge_key:
  "x \<noteq> NaN \<Longrightarrow> y \<noteq> NaN \<Longrightarrow> float_ge x y = (float_key y \<le> float_key x)"
  by (cases x; cases y) simp_all

lemma float_key_eq: "float_key x = float_key y \<longleftrightarrow> x = y"
  by (cases x; cases y) simp_all

lemma float_eq_iff: "float_eq x y \<longleftrightarrow> x = y \<and> x \<noteq> NaN"
  by (cases x; cases y) simp_all

lemma float_lt_irrefl: "\<not> float_lt a a"
  by (cases a) simp_all

lemma float_ge_not_lt: "float_ge a b \<Longrightarrow> \<not> float_lt a b"
  by (cases a; cases b) simp_all

lemma float_ge_refl: "a \<noteq> NaN \<Longrightarrow> float_ge a a"
  by (cases a) simp_all

lemma float_lt_ge_trans: "float_lt c b \<Longrightarrow> float_ge a b \<Longrightarrow> float_lt c a"
  by (cases a; cases b; cases c) simp_all

lemma float_ge_antisym: "float_ge a b \<Longrightarrow> \<not> float_lt b a \<Longrightarrow> a = b"
  by (cases a; cases b) simp_all

lemma float_add_finite:
  assumes "\<forall>x. rnd x \<noteq> NaN" "is_finite a" "is_finite b" "is_finite c"
  shows "float_add rnd (float_add rnd a b) c \<noteq> NaN"
proof -
  from assms(2-4) obtain a' b' c' where abc: "a = Finite a'" "b = Finite b'" "c = Finite c'"
    by (auto simp: is_finite_def split: pyfloat.splits)
  from assms(1) have "rnd (a' + b') \<noteq> NaN" by simp
  then have "float_add rnd (rnd (a' + b')) (Finite c') \<noteq> NaN"
    using assms(1) by (cases "rnd (a' + b')") simp_all
  with abc show ?thesis by simp
qed

section \<open>The sort\<close>

lemma count_asc_le: "count_asc lt prev xs \<le> length xs"
  by (induction xs arbitrary: prev) auto

lemma count_desc_le: "count_desc lt prev xs \<le> length xs"
  by (induction xs arbitrary: prev) auto

lemma count_run_le: "fst (count_run lt xs) \<le> length xs"
  by (auto simp: count_run_def count_asc_le count_desc_le split: list.splits)

lemma mset_binarysort: "mset (binarysort lt a rest) = mset a + mset rest"
proof (induction rest arbitrary: a)
  case Nil
  then show ?case by simp
next
  case (Cons pivot rest)
  have "mset (take l a @ pivot # drop l a) = add_mset pivot (mset a)" for l
  proof -
    have "mset (take l a) + mset (drop l a) = mset a"
      using mset_append[of "take l a" "drop l a"] by simp
    then show ?thesis by simp
  qed
  with Cons.IH show ?case by (simp add: Let_def)
qed

lemma mset_list_sort: "mset (list_sort lt xs) = mset xs"
proof (cases "length xs < 2")
  case True
  then show ?thesis by (simp add: list_sort_def)
next
  case False
  obtain n d where nd: "count_run lt xs = (n, d)" by (cases "count_run lt xs")
  have "mset (take n xs) + mset (drop n xs) = mset xs"
    using mset_append[of "take n xs" "drop n xs"] by simp
  then have "mset (if d then rev (take n xs) else take n xs) + mset (drop n xs) = mset xs"
    by simp
  with False nd show ?thesis by (simp add: list_sort_def mset_binarysort)
qed

lemma count_asc_sorted:
  fixes f :: "'a \<Rightarrow> 'k::linorder"
  assumes "\<forall>a\<in>S. \<forall>b\<in>S. lt a b = (f a < f b)" "prev \<in> S" "set xs \<subseteq> S"
  shows "sorted (map f (prev # take (count_asc lt prev xs) xs))"
  using assms
proof (induction xs arbitrary: prev)
  case Nil
  then show ?case by simp
next
  case (Cons x xs)
  show ?case
  proof (cases "lt x prev")
    case True
    then show ?thesis by simp
  next
    case False
    with Cons.prems have le: "f prev \<le> f x" by auto
    have "sorted (map f (x # take (count_asc lt x xs) xs))"
      using Cons.prems by (intro Cons.IH) auto
    with le False show ?thesis by fastforce
  qed
qed

lemma count_desc_sorted:
  fixes f :: "'a \<Rightarrow> 'k::linorder"
  assumes "\<forall>a\<in>S. \<forall>b\<in>S. lt a b = (f a < f b)" "prev \<in> S" "set xs \<subseteq> S"
  shows "sorted_wrt (\<lambda>a b. f b < f a) (prev # take (count_desc lt prev xs) xs)"
  using assms
proof (induction xs arbitrary: prev)
  case Nil
  then show ?case by simp
next
  case (Cons x xs)
  show ?case
  proof (cases "lt x prev")
    case False
    then show ?thesis by simp
  next
    case True
    with Cons.prems have le: "f x < f prev" by auto
    have "sorted_wrt (\<lambda>a b. f b < f a) (x # take (count_desc lt x xs) xs)"
      using Cons.prems by (intro Cons.IH) auto
    with le True show ?thesis by (auto intro: less_trans)
  qed
qed

lemma filter_rev_strict:
  fixes f :: "'a \<Rightarrow> 'k::linorder"
  assumes "sorted_wrt (\<lambda>a b. f b < f a) run"
  shows "filter (\<lambda>x. f k = f x) (rev run) = filter (\<lambda>x. f k = f x) run"
  using assms
proof (induction run)
  case Nil
  then show ?case by simp
next
  case (Cons x r)
  then have ih: "filter (\<lambda>x. f k = f x) (rev r) = filter (\<lambda>x. f k = f x) r" by simp
  show ?case
  proof (cases "f k = f x")
    case True
    with Cons.prems have "\<forall>y\<in>set r. f k \<noteq> f y" by auto
    then have "filter (\<lambda>x. f k = f x) r = []" by (simp add: filter_empty_conv)
    with ih True show ?thesis by simp
  next
    case False
    with ih show ?thesis by simp
  qed
qed

lemma bin_search_pos:
  fixes f :: "'a \<Rightarrow> 'k::linorder"
  assumes agree: "\<forall>a\<in>S. \<forall>b\<in>S. lt a b = (f a < f b)"
    and S: "pivot \<in> S" "set a \<subseteq> S"
    and srt: "sorted (map f a)"
  shows "l < r \<Longrightarrow> r \<le> length a \<Longrightarrow>
         \<forall>i<l. f (a ! i) \<le> f pivot \<Longrightarrow>
         \<forall>i. r \<le> i \<and> i < length a \<longrightarrow> f pivot < f (a ! i) \<Longrightarrow>
         bin_search lt a pivot l r \<le> length a \<and>
         (\<forall>i<bin_search lt a pivot l r. f (a ! i) \<le> f pivot) \<and>
         (\<forall>i. bin_search lt a pivot l r \<le> i \<and> i < length a \<longrightarrow> f pivot < f (a ! i))"
proof (induction "r - l" arbitrary: l r rule: less_induct)
  case less
  define p where "p = l + (r - l) div 2"
  from less.prems have p: "l \<le> p" "p < r" "p < length a" by (auto simp: p_def)
  then have ap: "a ! p \<in> S" using S by auto
  have mono: "\<And>i j. i \<le> j \<Longrightarrow> j < length a \<Longrightarrow> f (a ! i) \<le> f (a ! j)"
    using srt by (auto simp: sorted_iff_nth_mono)
  show ?case
  proof (cases "lt pivot (a ! p)")
    case True
    with agree ap S have lt: "f pivot < f (a ! p)" by auto
    have inv: "\<forall>i. p \<le> i \<and> i < length a \<longrightarrow> f pivot < f (a ! i)"
    proof (intro allI impI)
      fix i assume "p \<le> i \<and> i < length a"
      then have "f (a ! p) \<le> f (a ! i)" using mono by auto
      with lt show "f pivot < f (a ! i)" by simp
    qed
    show ?thesis
    proof (cases "l < p")
      case lp: True
      have eq: "bin_search lt a pivot l r = bin_search lt a pivot l p"
        using True lp by (subst bin_search.simps) (simp add: Let_def p_def)
      have "p - l < r - l" using p lp by simp
      from less.hyps[OF this lp _ less.prems(3) inv] p
      show ?thesis by (simp add: eq)
    next
      case False
      with p have "l = p" by simp
      have eq: "bin_search lt a pivot l r = l"
        using True False by (subst bin_search.simps) (simp add: Let_def p_def)
      show ?thesis unfolding eq using inv \<open>l = p\<close> less.prems p by auto
    qed
  next
    case False
    with agree ap S have ge: "f (a ! p) \<le> f pivot" by auto
    have inv: "\<forall>i<p + 1. f (a ! i) \<le> f pivot"
    proof (intro allI impI)
      fix i assume "i < p + 1"
      then have "f (a ! i) \<le> f (a ! p)" using mono p by auto
      with ge show "f (a ! i) \<le> f pivot" by simp
    qed
    show ?thesis
    proof (cases "p + 1 < r")
      case lp: True
      have eq: "bin_search lt a pivot l r = bin_search lt a pivot (p + 1) r"
        using False lp by (subst bin_search.simps) (simp add: Let_def p_def)
      have "r - (p + 1) < r - l" using p lp by simp
      from less.hyps[OF this lp less.prems(2) inv less.prems(4)]
      show ?thesis by (simp add: eq)
    next
      case nlp: False
      with p have "p + 1 = r" by simp
      have eq: "bin_search lt a pivot l r = p + 1"
        using False nlp by (subst bin_search.simps) (simp add: Let_def p_def)
      show ?thesis unfolding eq using inv \<open>p + 1 = r\<close> less.prems p by auto
    qed
  qed
qed

lemma insert_sorted_stable:
  fixes f :: "'a \<Rightarrow> 'k::linorder"
  assumes agree: "\<forall>a\<in>S. \<forall>b\<in>S. lt a b = (f a < f b)"
    and S: "pivot \<in> S" "set a \<subseteq> S"
    and srt: "sorted (map f a)" and ne: "a \<noteq> []"
  defines "m \<equiv> bin_search lt a pivot 0 (length a)"
  shows "sorted (map f (take m a @ pivot # drop m a))"
    and "filter (\<lambda>x. f k = f x) (take m a @ pivot # drop m a)
           = filter (\<lambda>x. f k = f x) (a @ [pivot])"
proof -
  from ne have "0 < length a" by simp
  then have "m \<le> length a \<and> (\<forall>i<m. f (a ! i) \<le> f pivot) \<and>
    (\<forall>i. m \<le> i \<and> i < length a \<longrightarrow> f pivot < f (a ! i))"
    unfolding m_def by (intro bin_search_pos[OF agree S srt]) auto
  then have m: "m \<le> length a" "\<forall>i<m. f (a ! i) \<le> f pivot"
    "\<forall>i. m \<le> i \<and> i < length a \<longrightarrow> f pivot < f (a ! i)"
    by blast+
  have before: "\<forall>x\<in>set (take m a). f x \<le> f pivot"
  proof
    fix x assume "x \<in> set (take m a)"
    then obtain i where "i < length (take m a)" "take m a ! i = x"
      by (auto simp: in_set_conv_nth)
    with m show "f x \<le> f pivot" by auto
  qed
  have after: "\<forall>x\<in>set (drop m a). f pivot < f x"
  proof
    fix x assume "x \<in> set (drop m a)"
    then obtain i where "i < length (drop m a)" "drop m a ! i = x"
      by (auto simp: in_set_conv_nth)
    with m show "f pivot < f x" by auto
  qed
  from srt have "sorted (map f (take m a @ drop m a))" by simp
  then have parts: "sorted (map f (take m a))" "sorted (map f (drop m a))"
    by (simp_all only: map_append sorted_append)
  moreover have "\<forall>x\<in>set (take m a). \<forall>y\<in>set (drop m a). f x \<le> f y"
    using before after by fastforce
  ultimately show "sorted (map f (take m a @ pivot # drop m a))"
    using before after by (auto simp: sorted_append less_imp_le)
  have split: "filter (\<lambda>x. f k = f x) a
                 = filter (\<lambda>x. f k = f x) (take m a) @ filter (\<lambda>x. f k = f x) (drop m a)"
    by (simp only: filter_append[symmetric] append_take_drop_id)
  show "filter (\<lambda>x. f k = f x) (take m a @ pivot # drop m a)
           = filter (\<lambda>x. f k = f x) (a @ [pivot])"
  proof (cases "f k = f pivot")
    case True
    with after have "filter (\<lambda>x. f k = f x) (drop m a) = []"
      by (auto simp: filter_empty_conv)
    with True split show ?thesis by simp
  next
    case False
    with split show ?thesis by simp
  qed
qed

lemma binarysort_sorted_stable:
  fixes f :: "'a \<Rightarrow> 'k::linorder"
  assumes agree: "\<forall>a\<in>S. \<forall>b\<in>S. lt a b = (f a < f b)"
  shows "set a \<subseteq> S \<Longrightarrow> set rest \<subseteq> S \<Longrightarrow> sorted (map f a) \<Longrightarrow> a \<noteq> [] \<Longrightarrow>
         sorted (map f (binarysort lt a rest)) \<and>
         filter (\<lambda>x. f k = f x) (binarysort lt a rest) = filter (\<lambda>x. f k = f x) (a @ rest)"
proof (induction rest arbitrary: a)
  case Nil
  then show ?case by simp
next
  case (Cons pivot rest)
  define m where "m = bin_search lt a pivot 0 (length a)"
  define a' where "a' = take m a @ pivot # drop m a"
  from Cons.prems have S: "pivot \<in> S" "set a \<subseteq> S" by auto
  have srt: "sorted (map f a')"
    unfolding a'_def m_def using agree S Cons.prems(3,4) by (rule insert_sorted_stable(1))
  have st: "filter (\<lambda>x. f k = f x) a' = filter (\<lambda>x. f k = f x) (a @ [pivot])"
    unfolding a'_def m_def using agree S Cons.prems(3,4) by (rule insert_sorted_stable(2))
  have "set a' \<subseteq> set a \<union> {pivot}"
    unfolding a'_def using set_take_subset[of m a] set_drop_subset[of m a] by auto
  with S have sub: "set a' \<subseteq> S" by auto
  have ne: "a' \<noteq> []" by (simp add: a'_def)
  from Cons.prems have "set rest \<subseteq> S" by simp
  from Cons.IH[OF sub this srt ne]
  have "sorted (map f (binarysort lt a' rest))"
    "filter (\<lambda>x. f k = f x) (binarysort lt a' rest) = filter (\<lambda>x. f k = f x) (a' @ rest)"
    by simp_all
  moreover have "binarysort lt a (pivot # rest) = binarysort lt a' rest"
    by (simp add: a'_def m_def Let_def)
  ultimately show ?case using st by simp
qed

lemma list_sort_sorted_stable:
  fixes f :: "'a \<Rightarrow> 'k::linorder"
  assumes agree: "\<forall>a\<in>set xs. \<forall>b\<in>set xs. lt a b = (f a < f b)"
  shows "sorted (map f (list_sort lt xs)) \<and>
         filter (\<lambda>x. f k = f x) (list_sort lt xs) = filter (\<lambda>x. f k = f x) xs"
proof (cases xs)
  case Nil
  then show ?thesis by (simp add: list_sort_def)
next
  case (Cons x ys)
  show ?thesis
  proof (cases ys)
    case Nil
    with Cons show ?thesis by (simp add: list_sort_def)
  next
    case (Cons y rest)
    with \<open>xs = x # ys\<close> have xs: "xs = x # y # rest" by simp
    define n where "n = fst (count_run lt xs)"
    define d where "d = snd (count_run lt xs)"
    define run where "run = (if d then rev (take n xs) else take n xs)"
    have ls: "list_sort lt xs = binarysort lt run (drop n xs)"
      using xs by (simp add: list_sort_def n_def d_def run_def case_prod_beta Let_def)
    have S: "x \<in> set xs" "y \<in> set xs" "set rest \<subseteq> set xs" using xs by auto
    have run_ok: "sorted (map f run) \<and>
                  filter (\<lambda>x. f k = f x) run = filter (\<lambda>x. f k = f x) (take n xs)"
    proof (cases "lt y x")
      case True
      then have nd: "n = 2 + count_desc lt y rest" "d"
        by (simp_all add: n_def d_def count_run_def xs)
      from True agree S have yx: "f y < f x" by auto
      have "sorted_wrt (\<lambda>a b. f b < f a) (y # take (count_desc lt y rest) rest)"
        using agree S(2,3) by (rule count_desc_sorted)
      with yx have desc: "sorted_wrt (\<lambda>a b. f b < f a) (take n xs)"
        by (auto simp: nd xs intro: less_trans)
      then have "sorted_wrt (\<lambda>a b. f a < f b) (rev (take n xs))"
        by (simp add: sorted_wrt_rev)
      then have "sorted_wrt (\<lambda>a b. f a \<le> f b) (rev (take n xs))"
        by (rule sorted_wrt_mono_rel[rotated]) simp
      then have "sorted (map f (rev (take n xs)))"
        by (simp only: sorted_wrt_map)
      with nd desc show ?thesis by (simp add: run_def filter_rev_strict)
    next
      case False
      then have nd: "n = 2 + count_asc lt y rest" "\<not> d"
        by (simp_all add: n_def d_def count_run_def xs)
      from False agree S have xy: "f x \<le> f y" by auto
      have "sorted (map f (y # take (count_asc lt y rest) rest))"
        using agree S(2,3) by (rule count_asc_sorted)
      with xy have "sorted (map f (take n xs))"
        by (fastforce simp: nd xs)
      with nd show ?thesis by (simp add: run_def)
    qed
    have sub: "set run \<subseteq> set xs" "set (drop n xs) \<subseteq> set xs"
      using set_take_subset[of n xs] set_drop_subset[of n xs] by (auto simp: run_def)
    have "2 \<le> n" by (auto simp: n_def count_run_def xs)
    then have ne: "run \<noteq> []" by (auto simp: run_def xs)
    from run_ok have rs: "sorted (map f run)" by blast
    have "sorted (map f (binarysort lt run (drop n xs))) \<and>
          filter (\<lambda>x. f k = f x) (binarysort lt run (drop n xs))
            = filter (\<lambda>x. f k = f x) (run @ drop n xs)"
      using agree sub rs ne by (rule binarysort_sorted_stable)
    then have "sorted (map f (binarysort lt run (drop n xs)))"
      "filter (\<lambda>x. f k = f x) (binarysort lt run (drop n xs))
         = filter (\<lambda>x. f k = f x) (run @ drop n xs)"
      by simp_all
    moreover have "filter (\<lambda>x. f k = f x) (run @ drop n xs) = filter (\<lambda>x. f k = f x) xs"
    proof -
      have "filter (\<lambda>x. f k = f x) (take n xs) @ filter (\<lambda>x. f k = f x) (drop n xs)
              = filter (\<lambda>x. f k = f x) xs"
        using filter_append[of "\<lambda>x. f k = f x" "take n xs" "drop n xs"] by simp
      with run_ok show ?thesis by simp
    qed
    ultimately show ?thesis by (simp add: ls)
  qed
qed

lemma list_sort_eq_sort_key:
  fixes f :: "'a \<Rightarrow> 'k::linorder"
  assumes "\<forall>a\<in>set xs. \<forall>b\<in>set xs. lt a b = (f a < f b)"
  shows "list_sort lt xs = sort_key f xs"
proof -
  have "sort_key f xs = list_sort lt xs"
  proof (rule properties_for_sort_key)
    show "mset (list_sort lt xs) = mset xs" by (rule mset_list_sort)
    show "sorted (map f (list_sort lt xs))"
      using list_sort_sorted_stable[OF assms] by blast
    show "filter (\<lambda>x. f k = f x) (list_sort lt xs) = filter (\<lambda>x. f k = f x) xs" for k
      using list_sort_sorted_stable[OF assms] by blast
  qed
  then show ?thesis by simp
qed


lemma mset_py_sort_reverse: "mset (py_sort_reverse key xs) = mset xs"
  by (simp add: py_sort_reverse_def mset_list_sort)

lemma set_py_sort_reverse: "set (py_sort_reverse key xs) = set xs"
  using mset_py_sort_reverse[of key xs] by (rule mset_eq_setD)

lemma length_py_sort_reverse: "length (py_sort_reverse key xs) = length xs"
  using mset_py_sort_reverse[of key xs] by (rule mset_eq_length)

lemma py_sort_reverse_sort_key:
  assumes "\<forall>x\<in>set xs. key x \<noteq> NaN"
  shows "py_sort_reverse key xs = rev (sort_key (\<lambda>x. float_key (key x)) (rev xs))"
proof -
  have "\<forall>a\<in>set (rev xs). \<forall>b\<in>set (rev xs).
          float_lt (key a) (key b) = (float_key (key a) < float_key (key b))"
    using assms by (simp add: float_lt_key)
  then have "list_sort (\<lambda>a b. float_lt (key a) (key b)) (rev xs)
               = sort_key (\<lambda>x. float_key (key x)) (rev xs)"
    by (rule list_sort_eq_sort_key)
  then show ?thesis by (simp add: py_sort_reverse_def)
qed

lemma sorted_py_sort_reverse:
  assumes "\<forall>x\<in>set xs. key x \<noteq> NaN"
  shows "sorted_wrt (\<lambda>a b. float_ge (key a) (key b)) (py_sort_reverse key xs)"
proof -
  let ?fk = "\<lambda>x. float_key (key x)"
  have "sorted (map ?fk (sort_key ?fk (rev xs)))" by (rule sorted_sort_key)
  then have "sorted_wrt (\<lambda>a b. ?fk a \<le> ?fk b) (sort_key ?fk (rev xs))"
    by (simp add: sorted_wrt_map)
  then have "sorted_wrt (\<lambda>a b. ?fk b \<le> ?fk a) (rev (sort_key ?fk (rev xs)))"
    by (simp add: sorted_wrt_rev)
  then have s: "sorted_wrt (\<lambda>a b. ?fk b \<le> ?fk a) (py_sort_reverse key xs)"
    by (simp only: py_sort_reverse_sort_key[OF assms])
  show ?thesis
  proof (rule sorted_wrt_mono_rel[OF _ s])
    fix a b
    assume "a \<in> set (py_sort_reverse key xs)" "b \<in> set (py_sort_reverse key xs)"
      and "?fk b \<le> ?fk a"
    with assms show "float_ge (key a) (key b)"
      by (simp add: set_py_sort_reverse float_ge_key)
  qed
qed

lemma stable_py_sort_reverse:
  assumes "\<forall>x\<in>set xs. key x \<noteq> NaN"
  shows "filter (\<lambda>r. key r = t) (py_sort_reverse key xs) = filter (\<lambda>r. key r = t) xs"
proof -
  let ?fk = "\<lambda>x. float_key (key x)"
  have "filter (\<lambda>r. key r = t) (py_sort_reverse key xs)
        = filter (\<lambda>r. ?fk r = float_key t) (py_sort_reverse key xs)"
    by (simp add: float_key_eq)
  also have "\<dots> = rev (filter (\<lambda>r. ?fk r = float_key t) (sort_key ?fk (rev xs)))"
    by (simp only: py_sort_reverse_sort_key[OF assms] rev_filter)
  also have "\<dots> = rev (filter (\<lambda>r. ?fk r = float_key t) (rev xs))"
    by (simp only: sort_key_stable)
  also have "\<dots> = filter (\<lambda>r. ?fk r = float_key t) xs"
    by (simp add: rev_filter)
  also have "\<dots> = filter (\<lambda>r. key r = t) xs"
    by (simp add: float_key_eq)
  finally show ?thesis .
qed

section \<open>The ranking loop\<close>

lemma length_rank_loop: "length (rank_loop records i cur rest) = length rest"
  by (induction rest arbitrary: i cur) (simp_all add: Let_def)

lemma truncate_rank_loop: "map scored.truncate (rank_loop records i cur rest) = rest"
  by (induction rest arbitrary: i cur) (simp_all add: Let_def scored.extend_def scored.truncate_def)

lemma Rank_extend: "Rank (scored.extend r \<lparr>Rank = k\<rparr>) = k"
  by (simp add: scored.extend_def)

lemma Total_truncate: "Total (scored.truncate r) = Total r"
  by (simp add: scored.truncate_def)

lemma rank_loop_Cons:
  "rank_loop (pre @ x # xs) (length pre) cur (x # xs) =
     scored.extend x \<lparr>Rank = next_rank pre cur x\<rparr>
       # rank_loop ((pre @ [x]) @ xs) (length (pre @ [x])) (next_rank pre cur x) xs"
proof (cases "pre = []")
  case True
  then show ?thesis by (simp add: next_rank_def)
next
  case False
  then have "(pre @ x # xs) ! (length pre - 1) = last pre"
    by (simp add: nth_append last_conv_nth)
  with False show ?thesis by (simp add: next_rank_def)
qed

lemma next_rank_count:
  assumes srt: "sorted_wrt (\<lambda>a b. float_ge (Total a) (Total b)) (pre @ x # xs)"
    and nn: "\<forall>r\<in>set (pre @ x # xs). Total r \<noteq> NaN"
    and cur0: "pre = [] \<Longrightarrow> cur = 1"
    and cur: "pre \<noteq> [] \<Longrightarrow>
                cur = 1 + length (filter (\<lambda>r. float_lt (Total (last pre)) (Total r)) pre)"
  shows "next_rank pre cur x =
           1 + length (filter (\<lambda>r. float_lt (Total x) (Total r)) (pre @ x # xs))"
proof -
  from srt have after: "\<forall>r\<in>set xs. float_ge (Total x) (Total r)"
    by (auto simp: sorted_wrt_append)
  then have "\<forall>r\<in>set (x # xs). \<not> float_lt (Total x) (Total r)"
    by (auto simp: float_lt_irrefl dest: float_ge_not_lt)
  then have tail: "filter (\<lambda>r. float_lt (Total x) (Total r)) (x # xs) = []"
    by (simp only: filter_empty_conv)
  from srt have before: "\<forall>p\<in>set pre. float_ge (Total p) (Total x)"
    by (auto simp: sorted_wrt_append)
  show ?thesis
  proof (cases "pre = []")
    case True
    with cur0 tail show ?thesis by (simp add: next_rank_def)
  next
    case False
    then have lastin: "last pre \<in> set pre" by simp
    from srt have spre: "sorted_wrt (\<lambda>a b. float_ge (Total a) (Total b)) pre"
      by (simp add: sorted_wrt_append)
    have ge_last: "\<forall>p\<in>set pre. float_ge (Total p) (Total (last pre))"
    proof
      fix p assume pin: "p \<in> set pre"
      then obtain i where i: "i < length pre" "pre ! i = p" by (auto simp: in_set_conv_nth)
      show "float_ge (Total p) (Total (last pre))"
      proof (cases "i = length pre - 1")
        case True
        with i False have "p = last pre" by (simp add: last_conv_nth)
        moreover from nn pin have "Total p \<noteq> NaN" by simp
        ultimately show ?thesis by (simp add: float_ge_refl)
      next
        case False
        with i have "i < length pre - 1" by simp
        with spre i \<open>pre \<noteq> []\<close>
        have "float_ge (Total (pre ! i)) (Total (pre ! (length pre - 1)))"
          by (auto simp: sorted_wrt_iff_nth_less)
        with i \<open>pre \<noteq> []\<close> show ?thesis by (simp add: last_conv_nth)
      qed
    qed
    show ?thesis
    proof (cases "float_lt (Total x) (Total (last pre))")
      case True
      with ge_last have "\<forall>p\<in>set pre. float_lt (Total x) (Total p)"
        by (blast intro: float_lt_ge_trans)
      then have "filter (\<lambda>r. float_lt (Total x) (Total r)) pre = pre"
        by (simp add: filter_id_conv)
      with True False tail show ?thesis by (simp add: next_rank_def)
    next
      case nlt: False
      from before lastin have ge: "float_ge (Total (last pre)) (Total x)" by blast
      from ge nlt have "Total (last pre) = Total x" by (rule float_ge_antisym)
      with nlt False tail cur show ?thesis by (simp add: next_rank_def)
    qed
  qed
qed

lemma rank_loop_count:
  assumes "sorted_wrt (\<lambda>a b. float_ge (Total a) (Total b)) (pre @ rest)"
    and "\<forall>r\<in>set (pre @ rest). Total r \<noteq> NaN"
    and "pre = [] \<Longrightarrow> cur = 1"
    and "pre \<noteq> [] \<Longrightarrow>
           cur = 1 + length (filter (\<lambda>r. float_lt (Total (last pre)) (Total r)) pre)"
    and "k < length rest"
  shows "Rank (rank_loop (pre @ rest) (length pre) cur rest ! k) =
           1 + length (filter (\<lambda>r. float_lt (Total (rest ! k)) (Total r)) (pre @ rest))"
  using assms
proof (induction rest arbitrary: pre cur k)
  case Nil
  then show ?case by simp
next
  case (Cons x xs)
  have nr: "next_rank pre cur x =
              1 + length (filter (\<lambda>r. float_lt (Total x) (Total r)) (pre @ x # xs))"
    using Cons.prems(1-4) by (rule next_rank_count)
  show ?case
  proof (cases k)
    case 0
    with nr show ?thesis by (simp only: rank_loop_Cons nth_Cons_0 Rank_extend)
  next
    case (Suc k')
    from Cons.prems(1) have "\<forall>r\<in>set xs. float_ge (Total x) (Total r)"
      by (auto simp: sorted_wrt_append)
    then have "\<forall>r\<in>set (x # xs). \<not> float_lt (Total x) (Total r)"
      by (auto simp: float_lt_irrefl dest: float_ge_not_lt)
    then have fx: "filter (\<lambda>r. float_lt (Total x) (Total r)) xs = []"
      by (simp add: filter_empty_conv)
    have px: "\<not> float_lt (Total x) (Total x)" by (rule float_lt_irrefl)
    have a: "sorted_wrt (\<lambda>a b. float_ge (Total a) (Total b)) ((pre @ [x]) @ xs)"
      using Cons.prems(1) by simp
    have n: "\<forall>r\<in>set ((pre @ [x]) @ xs). Total r \<noteq> NaN"
      using Cons.prems(2) by simp
    have b: "pre @ [x] = [] \<Longrightarrow> next_rank pre cur x = 1" by simp
    have c: "pre @ [x] \<noteq> [] \<Longrightarrow> next_rank pre cur x =
               1 + length (filter (\<lambda>r. float_lt (Total (last (pre @ [x]))) (Total r)) (pre @ [x]))"
      using nr fx px by simp
    have d: "k' < length xs" using Cons.prems(5) Suc by simp
    have "Rank (rank_loop ((pre @ [x]) @ xs) (length (pre @ [x])) (next_rank pre cur x) xs ! k') =
            1 + length (filter (\<lambda>r. float_lt (Total (xs ! k')) (Total r)) ((pre @ [x]) @ xs))"
      using a n b c d by (rule Cons.IH)
    with Suc show ?thesis
      by (simp only: rank_loop_Cons nth_Cons_Suc append_assoc append_Cons append_Nil)
  qed
qed

lemma rank_loop_step:
  "Suc k < length rest \<Longrightarrow>
     Rank (rank_loop (pre @ rest) (length pre) cur rest ! Suc k) =
       (if float_lt (Total (rest ! Suc k)) (Total (rest ! k)) then length pre + k + 2
        else Rank (rank_loop (pre @ rest) (length pre) cur rest ! k))"
proof (induction rest arbitrary: pre cur k)
  case Nil
  then show ?case by simp
next
  case (Cons x xs)
  show ?case
  proof (cases k)
    case 0
    with Cons.prems obtain y ys where xs: "xs = y # ys" by (cases xs) auto
    have "rank_loop ((pre @ [x]) @ y # ys) (length (pre @ [x])) (next_rank pre cur x) (y # ys) ! 0
          = scored.extend y \<lparr>Rank = next_rank (pre @ [x]) (next_rank pre cur x) y\<rparr>"
      by (simp only: rank_loop_Cons nth_Cons_0)
    with 0 xs show ?thesis
      by (simp add: rank_loop_Cons Rank_extend next_rank_def del: rank_loop.simps)
  next
    case (Suc k')
    with Cons.prems have "Suc k' < length xs" by simp
    from Cons.IH[OF this, of "pre @ [x]" "next_rank pre cur x"] Suc
    show ?thesis by (simp add: rank_loop_Cons del: rank_loop.simps)
  qed
qed

lemma rank_loop_first:
  "rest \<noteq> [] \<Longrightarrow> Rank (rank_loop records 0 1 rest ! 0) = 1"
  by (cases rest) (simp_all add: Rank_extend)

section \<open>The pattern search and the brace scan\<close>




















section \<open>The merge as a whole\<close>

lemma fields_truncate:
  "Name (scored.truncate r) = Name r"
  "RollNo (scored.truncate r) = RollNo r"
  "OverallPseudocode (scored.truncate r) = OverallPseudocode r"
  "OverallCoding (scored.truncate r) = OverallCoding r"
  "OverallDailyTest (scored.truncate r) = OverallDailyTest r"
  by (simp_all add: scored.truncate_def)

lemma component_sum_truncate: "component_sum rnd (scored.truncate r) = component_sum rnd r"
  by (simp add: component_sum_def fields_truncate)

lemma length_assign_ranks: "length (assign_ranks xs) = length xs"
  by (simp add: assign_ranks_def length_rank_loop)

lemma truncate_assign_ranks: "map scored.truncate (assign_ranks xs) = xs"
  by (simp add: assign_ranks_def truncate_rank_loop)

lemma truncate_assign_ranks_nth:
  assumes "i < length xs"
  shows "scored.truncate (assign_ranks xs ! i) = xs ! i"
proof -
  from assms have "map scored.truncate (assign_ranks xs) ! i = scored.truncate (assign_ranks xs ! i)"
    by (simp add: length_assign_ranks)
  then show ?thesis by (simp add: truncate_assign_ranks)
qed

lemma Total_assign_ranks_nth:
  "i < length xs \<Longrightarrow> Total (assign_ranks xs ! i) = Total (xs ! i)"
  using truncate_assign_ranks_nth[of i xs] Total_truncate[of "assign_ranks xs ! i"] by simp

lemma map_Total_assign_ranks: "map Total (assign_ranks xs) = map Total xs"
proof -
  have "map Total (map scored.truncate (assign_ranks xs)) = map Total xs"
    by (simp only: truncate_assign_ranks)
  then show ?thesis by (simp add: Total_truncate comp_def)
qed

lemma merge_records_Inr:
  assumes "merge_records rnd student_core manual_overall = Inr out"
  shows "\<exists>items records. student_core = JObj items \<and>
           build_records rnd items manual_overall = Inr records \<and>
           out = assign_ranks (py_sort_reverse Total records)"
proof -
  from assms obtain items where items: "py_items student_core = Inr items"
    by (auto simp: merge_records_def split: sum.splits)
  then have sc: "student_core = JObj items" by (cases student_core) auto
  from assms items obtain records where
    "build_records rnd items manual_overall = Inr records"
    "out = assign_ranks (py_sort_reverse Total records)"
    by (auto simp: merge_records_def split: sum.splits)
  with sc show ?thesis by blast
qed

lemma merge_records_build:
  "build_records rnd items manual_overall = Inr records \<Longrightarrow>
     merge_records rnd (JObj items) manual_overall
       = Inr (assign_ranks (py_sort_reverse Total records))"
  by (simp add: merge_records_def)

lemma parse_html_file_content_Inr:
  "parse_html_file_content rnd loads content = Inr out \<Longrightarrow>
     \<exists>student_core manual_overall. merge_records rnd student_core manual_overall = Inr out"
  by (auto simp: parse_html_file_content_def split: sum.splits)

lemma build_records_total:
  assumes "build_records rnd items manual_overall = Inr records" and "r \<in> set records"
  shows "Total r = component_sum rnd r"
proof -
  from assms(2) obtain i where i: "i < length records" "records ! i = r"
    by (auto simp: in_set_conv_nth)
  with assms(1) have "i < length items" by (simp add: build_records_length)
  from build_records_nth[OF assms(1) this] i(2)
  have "make_record rnd (fst (items ! i)) (snd (items ! i)) manual_overall = Inr r" by simp
  from make_record_Inr[OF this] show ?thesis by blast
qed

lemma merge_records_total:
  assumes "merge_records rnd student_core manual_overall = Inr out" and "r \<in> set out"
  shows "Total r = component_sum rnd r"
proof -
  from merge_records_Inr[OF assms(1)] obtain items records where
    b: "build_records rnd items manual_overall = Inr records"
    and out: "out = assign_ranks (py_sort_reverse Total records)"
    by blast
  from assms(2) have "scored.truncate r \<in> set (map scored.truncate out)" by simp
  with out have "scored.truncate r \<in> set records"
    by (simp only: truncate_assign_ranks set_py_sort_reverse)
  from build_records_total[OF b this] show ?thesis
    by (simp add: component_sum_truncate Total_truncate)
qed

lemma float_eq_total:
  assumes "Total r = component_sum rnd r"
  shows "float_eq (Total r) (component_sum rnd r) = (Total r \<noteq> NaN)"
    and "(\<forall>x. rnd x \<noteq> NaN) \<and> is_finite (OverallPseudocode r) \<and> is_finite (OverallCoding r) \<and>
         is_finite (OverallDailyTest r) \<longrightarrow> float_eq (Total r) (component_sum rnd r)"
proof -
  show "float_eq (Total r) (component_sum rnd r) = (Total r \<noteq> NaN)"
    using assms by (simp add: float_eq_iff)
  show "(\<forall>x. rnd x \<noteq> NaN) \<and> is_finite (OverallPseudocode r) \<and> is_finite (OverallCoding r) \<and>
         is_finite (OverallDailyTest r) \<longrightarrow> float_eq (Total r) (component_sum rnd r)"
  proof
    assume a: "(\<forall>x. rnd x \<noteq> NaN) \<and> is_finite (OverallPseudocode r) \<and>
               is_finite (OverallCoding r) \<and> is_finite (OverallDailyTest r)"
    then have "component_sum rnd r \<noteq> NaN"
      unfolding component_sum_def by (intro float_add_finite) simp_all
    with assms show "float_eq (Total r) (component_sum rnd r)"
      by (simp add: float_eq_iff)
  qed
qed

lemma exact_rounding_not_NaN: "exact_rounding x \<noteq> NaN"
  by (simp add: exact_rounding_def)

lemma exact_rounding_small: "\<bar>x\<bar> \<le> 1000000 \<Longrightarrow> exact_rounding x = Finite x"
  unfolding exact_rounding_def by (simp; linarith)

lemma get_score_absent: "rnd 0 = Finite 0 \<Longrightarrow> get_score rnd (JObj []) k = Inr (Finite 0)"
  by (simp add: get_score_def ebind_def clean_score_def)

lemma make_record_absent:
  assumes "make_record rnd roll_no core_data (JObj scores) = Inr r"
    and "map_of scores roll_no = None"
    and "rnd 0 = Finite 0"
  shows "OverallPseudocode r = Finite 0 \<and> OverallCoding r = Finite 0 \<and>
         OverallDailyTest r = Finite 0 \<and> Total r = Finite 0"
proof -
  from make_record_Inr[OF assms(1)] obtain overall_data where
    od: "py_get (JObj scores) roll_no (JObj []) = Inr overall_data"
    and p: "get_score rnd overall_data ''OverallPseudocode'' = Inr (OverallPseudocode r)"
    and c: "get_score rnd overall_data ''OverallCoding'' = Inr (OverallCoding r)"
    and d: "get_score rnd overall_data ''OverallDaily'' = Inr (OverallDailyTest r)"
    and t: "Total r = component_sum rnd r"
    by blast
  from od assms(2) have "overall_data = JObj []" by simp
  with p c d assms(3) have pcd: "OverallPseudocode r = Finite 0" "OverallCoding r = Finite 0"
    "OverallDailyTest r = Finite 0"
    by (simp_all add: get_score_absent)
  from t have "Total r = Finite 0" by (simp add: component_sum_def pcd assms(3))
  with pcd show ?thesis by simp
qed

section \<open>Properties of the score normalisation\<close>

text \<open>
  The result of \<open>clean_score\<close> by the type of its argument: an integer is converted, or
  raises \<open>OverflowError\<close> when it is beyond the double range; a float is returned as it
  is, whatever it is; a string that is an absence marker once stripped gives 0.0, and
  any other string with a leading run of digits and dots gives \<open>float()\<close> of this run.
\<close>

lemma clean_score_int:
  "clean_score rnd (JInt n) =
     (if \<bar>n\<bar> \<ge> 2 ^ 1024 - 2 ^ 970 then Inl OverflowError else Inr (rnd (of_int n)))"
  by (simp add: clean_score_def)

lemma clean_score_huge_int: "clean_score rnd (JInt (10 ^ 400)) = Inl OverflowError"
  by (simp add: clean_score_def)

lemma clean_score_float: "clean_score rnd (JFloat x) = Inr x"
  by (simp add: clean_score_def)

lemma clean_score_str:
  "strip s = t \<Longrightarrow> t \<notin> set [''-'', '''', ''NA'', ''N/A''] \<Longrightarrow> numeric_match t = Some g \<Longrightarrow>
     clean_score rnd (JStr s) = py_float_str rnd g"
  by (simp add: clean_score_def)

lemma clean_score_marker:
  "strip s \<in> set [''-'', '''', ''NA'', ''N/A''] \<Longrightarrow> clean_score rnd (JStr s) = Inr (Finite 0)"
  by (simp add: clean_score_def)

lemma py_float_str_digits:
  "s \<noteq> [] \<Longrightarrow> list_all is_digit s \<Longrightarrow> py_float_str rnd s = Inr (rnd (real (digits_to_nat s)))"
proof -
  assume "s \<noteq> []" "list_all is_digit s"
  then have tw: "takeWhile is_digit s = s" and dw: "dropWhile is_digit s = []"
    by (simp_all add: list_all_iff)
  show ?thesis unfolding py_float_str_def Let_def tw dw using \<open>s \<noteq> []\<close> by simp
qed

text \<open>
  The values that the specification lists for \<open>normalize\<close>, and those of the instances
  below. A number written in a string is rounded by \<open>float()\<close>; 97, 30 and 40 are
  doubles, so 97.0, 30.0 and 40.0 are the results in Python.
\<close>

lemma clean_score_97: "clean_score rnd (JStr ''97(Reattempt)'') = Inr (rnd 97)"
proof -
  have a: "strip ''97(Reattempt)'' = ''97(Reattempt)''" by code_simp
  have b: "''97(Reattempt)'' \<notin> set [''-'', '''', ''NA'', ''N/A'']" by simp
  have c: "numeric_match ''97(Reattempt)'' = Some ''97''" by code_simp
  have d: "list_all is_digit ''97''" by code_simp
  have e: "digits_to_nat ''97'' = 97" by code_simp
  have f: "py_float_str rnd ''97'' = Inr (rnd (real (digits_to_nat ''97'')))"
    by (rule py_float_str_digits[OF _ d]) simp
  show ?thesis
    by (simp only: clean_score_str[OF a b c] f e) simp
qed

lemma clean_score_30: "clean_score rnd (JStr ''30(Late)'') = Inr (rnd 30)"
proof -
  have a: "strip ''30(Late)'' = ''30(Late)''" by code_simp
  have b: "''30(Late)'' \<notin> set [''-'', '''', ''NA'', ''N/A'']" by simp
  have c: "numeric_match ''30(Late)'' = Some ''30''" by code_simp
  have d: "list_all is_digit ''30''" by code_simp
  have e: "digits_to_nat ''30'' = 30" by code_simp
  have f: "py_float_str rnd ''30'' = Inr (rnd (real (digits_to_nat ''30'')))"
    by (rule py_float_str_digits[OF _ d]) simp
  show ?thesis
    by (simp only: clean_score_str[OF a b c] f e) simp
qed

lemma clean_score_40: "clean_score rnd (JStr ''40'') = Inr (rnd 40)"
proof -
  have a: "strip ''40'' = ''40''" by code_simp
  have b: "''40'' \<notin> set [''-'', '''', ''NA'', ''N/A'']" by simp
  have c: "numeric_match ''40'' = Some ''40''" by code_simp
  have d: "list_all is_digit ''40''" by code_simp
  have e: "digits_to_nat ''40'' = 40" by code_simp
  have f: "py_float_str rnd ''40'' = Inr (rnd (real (digits_to_nat ''40'')))"
    by (rule py_float_str_digits[OF _ d]) simp
  show ?thesis
    by (simp only: clean_score_str[OF a b c] f e) simp
qed

lemma clean_score_dash: "clean_score rnd (JStr ''-'') = Inr (Finite 0)"
proof -
  have "strip ''-'' = ''-''" by code_simp
  then show ?thesis by (simp add: clean_score_marker)
qed

lemma clean_score_empty: "clean_score rnd (JStr '''') = Inr (Finite 0)"
  by (simp add: clean_score_marker strip_def)

lemma clean_score_None: "clean_score rnd JNull = Inr (Finite 0)"
  by (simp add: clean_score_def)

lemma clean_score_85_5: "clean_score rnd (JFloat (Finite 85.5)) = Inr (Finite 85.5)"
  by (rule clean_score_float)

lemmas clean_score_examples =
  clean_score_97 clean_score_dash clean_score_empty clean_score_None clean_score_85_5

lemma clean_score_1_2_3: "clean_score rnd (JStr ''1.2.3'') = Inl (FloatValueError ''1.2.3'')"
  by code_simp

text \<open>
  C1. Score normalisation never raises: every value gives a float, and an unparseable
  score gives 0.0. The code does not keep this: the pattern \<open>[\d.]+\<close> lets a lone dot
  through to \<open>float()\<close>, which raises \<open>ValueError\<close>.
\<close>

theorem clean_score_dot_raises:
  "clean_score rnd (JStr ''.'') = Inl (FloatValueError ''.'')"
  by code_simp

text \<open>
  C3. A string that is not an absence marker gives the number parsed from its longest
  leading run of digits and a single decimal point. The code takes the run of digits
  and dots in any number, so on \<open>1.2.3\<close> it passes the whole run to \<open>float()\<close> and
  raises \<open>ValueError\<close> where the claim gives 1.2.
\<close>

theorem clean_score_two_dots_raises:
  "clean_score rnd (JStr ''1.2.3'') = Inl (FloatValueError ''1.2.3'')"
  by code_simp

text \<open>
  C10. For every boolean \<open>b\<close>, \<open>clean_score b\<close> is \<open>float(b)\<close>, that is 1.0 for \<open>True\<close>
  and 0.0 for \<open>False\<close>: a boolean passes the numeric-type check and never reaches the
  final fallback.
\<close>

theorem clean_score_bool:
  "clean_score rnd (JBool b) = Inr (Finite (of_bool b)) \<and>
   clean_score rnd (JBool True) = Inr (Finite 1) \<and>
   clean_score rnd (JBool False) = Inr (Finite 0)"
  by (simp add: clean_score_def)

section \<open>Properties of the merge\<close>

lemma example_build:
  "build_records exact_rounding example_identities (JObj example_scores) = Inr example_records"
  by (simp add: example_identities_def example_scores_def example_records_def make_record_def
      ebind_def get_score_def clean_score_int clean_score_float clean_score_30 clean_score_40
      clean_score_dash exact_rounding_small)

lemma example_rank:
  "assign_ranks (py_sort_reverse Total example_records) = example_out"
  by code_simp

lemma example_merge:
  "merge_records exact_rounding (JObj example_identities) (JObj example_scores) = Inr example_out"
  using merge_records_build[OF example_build] by (simp only: example_rank)

lemma nan_build:
  "build_records exact_rounding nan_identities (JObj nan_scores) = Inr nan_records"
  by (simp add: nan_identities_def nan_scores_def nan_records_def make_record_def
      ebind_def get_score_def clean_score_int clean_score_float exact_rounding_small)

lemma nan_rank:
  "assign_ranks (py_sort_reverse Total nan_records) = nan_out"
  by code_simp

lemma nan_merge:
  "merge_records exact_rounding (JObj nan_identities) (JObj nan_scores) = Inr nan_out"
  using merge_records_build[OF nan_build] by (simp only: nan_rank)

text \<open>
  When the merge returns, its output has one record per identity key: the records built
  for the identities, each with its rank; and the record of a key that is absent from
  the score mapping has the three scores and the total equal to 0.0 (\<open>float(0)\<close> and
  \<open>0.0 + 0.0\<close> are 0.0, which is the hypothesis on the rounding).
\<close>

lemma merge_returns_one_record_per_identity:
  assumes "merge_records rnd (JObj identities) (JObj scores) = Inr out"
    and "rnd 0 = Finite 0"
  shows "length out = length identities \<and>
         (\<exists>records. build_records rnd identities (JObj scores) = Inr records \<and>
            length records = length identities \<and>
            mset (map scored.truncate out) = mset records \<and>
            (\<forall>i<length identities. map_of scores (fst (identities ! i)) = None \<longrightarrow>
               OverallPseudocode (records ! i) = Finite 0 \<and>
               OverallCoding (records ! i) = Finite 0 \<and>
               OverallDailyTest (records ! i) = Finite 0 \<and> Total (records ! i) = Finite 0))"
proof -
  from merge_records_Inr[OF assms(1)] obtain records where
    b: "build_records rnd identities (JObj scores) = Inr records"
    and out: "out = assign_ranks (py_sort_reverse Total records)"
    by auto
  have len: "length records = length identities" using b by (rule build_records_length)
  have lout: "length out = length identities"
    using out len by (simp add: length_assign_ranks length_py_sort_reverse)
  have ms: "mset (map scored.truncate out) = mset records"
    using out by (simp only: truncate_assign_ranks mset_py_sort_reverse)
  have zero: "\<forall>i<length identities. map_of scores (fst (identities ! i)) = None \<longrightarrow>
               OverallPseudocode (records ! i) = Finite 0 \<and>
               OverallCoding (records ! i) = Finite 0 \<and>
               OverallDailyTest (records ! i) = Finite 0 \<and> Total (records ! i) = Finite 0"
  proof (intro allI impI)
    fix i assume i: "i < length identities"
      and absent: "map_of scores (fst (identities ! i)) = None"
    from build_records_nth[OF b i]
    have "make_record rnd (fst (identities ! i)) (snd (identities ! i)) (JObj scores)
            = Inr (records ! i)" .
    from make_record_absent[OF this absent assms(2)]
    show "OverallPseudocode (records ! i) = Finite 0 \<and>
          OverallCoding (records ! i) = Finite 0 \<and>
          OverallDailyTest (records ! i) = Finite 0 \<and> Total (records ! i) = Finite 0" .
  qed
  from lout b len ms zero show ?thesis by blast
qed

text \<open>
  C4. For every pair of input mappings, the merge output has exactly one record per
  identity key, and an identity key absent from the score mapping still yields its
  record, with the three scores and the total equal to 0.0. The code does not keep
  this: with the identities \<open>R1\<close> and \<open>R2\<close> and the score \<open>"1.2.3"\<close> for \<open>R1\<close> only,
  \<open>clean_score\<close> raises \<open>ValueError\<close> while the record of \<open>R1\<close> is built, the merge returns
  no output, and the record of the absent key \<open>R2\<close> is not produced.
\<close>

theorem merge_raises_on_malformed_score:
  "merge_records rnd (JObj malformed_identities) (JObj malformed_scores)
     = Inl (FloatValueError ''1.2.3'')"
  by (simp add: merge_records_def malformed_identities_def malformed_scores_def make_record_def
      ebind_def get_score_def clean_score_int clean_score_1_2_3)

text \<open>
  C5. The claim: in every record of the merge output, \<open>Total\<close> equals the sum
  \<open>OverallPseudocode + OverallCoding + OverallDailyTest\<close>, and no operation produces a
  record where this equation fails. The equation fails in the second record of the
  merge of \<open>nan_identities\<close> and \<open>nan_scores\<close>: its scores are \<open>inf\<close>, \<open>-inf\<close> and 0.0, its
  total and the sum of its scores are NaN, and NaN is equal to nothing, itself included.
\<close>

theorem total_equation_counterexample:
  "merge_records exact_rounding (JObj nan_identities) (JObj nan_scores) = Inr nan_out \<and>
   Total (nan_out ! 1) = NaN \<and>
   component_sum exact_rounding (nan_out ! 1) = NaN \<and>
   float_eq (Total (nan_out ! 1)) (component_sum exact_rounding (nan_out ! 1)) = False"
  using nan_merge by (simp add: nan_out_def component_sum_def)

text \<open>
  C5, as the code has it. In every record of the output of the merge and of
  \<open>parse_html_file_content\<close>, the operations that produce records, \<open>Total\<close> is the value of
  \<open>OverallPseudocode + OverallCoding + OverallDailyTest\<close> in float arithmetic; the
  comparison \<open>Total == OverallPseudocode + OverallCoding + OverallDailyTest\<close> is true
  exactly when the total is not NaN, and it is true when the three scores are finite.
\<close>

theorem total_is_sum_of_components:
  "(merge_records rnd student_core manual_overall = Inr out \<longrightarrow>
      (\<forall>r\<in>set out.
         Total r = component_sum rnd r \<and>
         float_eq (Total r) (component_sum rnd r) = (Total r \<noteq> NaN) \<and>
         ((\<forall>x. rnd x \<noteq> NaN) \<and> is_finite (OverallPseudocode r) \<and>
          is_finite (OverallCoding r) \<and> is_finite (OverallDailyTest r) \<longrightarrow>
            float_eq (Total r) (component_sum rnd r)))) \<and>
   (parse_html_file_content rnd loads content = Inr out' \<longrightarrow>
      (\<forall>r\<in>set out'.
         Total r = component_sum rnd r \<and>
         float_eq (Total r) (component_sum rnd r) = (Total r \<noteq> NaN) \<and>
         ((\<forall>x. rnd x \<noteq> NaN) \<and> is_finite (OverallPseudocode r) \<and>
          is_finite (OverallCoding r) \<and> is_finite (OverallDailyTest r) \<longrightarrow>
            float_eq (Total r) (component_sum rnd r))))"
proof (intro conjI impI ballI)
  fix r assume "merge_records rnd student_core manual_overall = Inr out" "r \<in> set out"
  then have t: "Total r = component_sum rnd r" by (rule merge_records_total)
  then show "Total r = component_sum rnd r" .
  from t show "float_eq (Total r) (component_sum rnd r) = (Total r \<noteq> NaN)"
    by (rule float_eq_total(1))
  assume "(\<forall>x. rnd x \<noteq> NaN) \<and> is_finite (OverallPseudocode r) \<and>
          is_finite (OverallCoding r) \<and> is_finite (OverallDailyTest r)"
  with float_eq_total(2)[OF t] show "float_eq (Total r) (component_sum rnd r)" by blast
next
  fix r assume p: "parse_html_file_content rnd loads content = Inr out'" and r: "r \<in> set out'"
  from parse_html_file_content_Inr[OF p] obtain sc mo where
    "merge_records rnd sc mo = Inr out'"
    by blast
  from merge_records_total[OF this r] have t: "Total r = component_sum rnd r" .
  then show "Total r = component_sum rnd r" .
  from t show "float_eq (Total r) (component_sum rnd r) = (Total r \<noteq> NaN)"
    by (rule float_eq_total(1))
  assume "(\<forall>x. rnd x \<noteq> NaN) \<and> is_finite (OverallPseudocode r) \<and>
          is_finite (OverallCoding r) \<and> is_finite (OverallDailyTest r)"
  with float_eq_total(2)[OF t] show "float_eq (Total r) (component_sum rnd r)" by blast
qed

theorem total_is_sum_of_components_witness:
  "merge_records exact_rounding (JObj example_identities) (JObj example_scores)
     = Inr example_out \<and>
   is_finite (OverallPseudocode (example_out ! 0)) \<and>
   is_finite (OverallCoding (example_out ! 0)) \<and>
   is_finite (OverallDailyTest (example_out ! 0)) \<and>
   Total (example_out ! 0) = component_sum exact_rounding (example_out ! 0) \<and>
   float_eq (Total (example_out ! 0)) (component_sum exact_rounding (example_out ! 0)) \<and>
   Total (example_out ! 0) = Finite 80"
proof -
  have m: "example_out ! 0 \<in> set example_out" by (simp add: example_out_def)
  have f: "is_finite (OverallPseudocode (example_out ! 0))"
    "is_finite (OverallCoding (example_out ! 0))"
    "is_finite (OverallDailyTest (example_out ! 0))"
    by (simp_all add: example_out_def is_finite_def)
  from total_is_sum_of_components[of exact_rounding "JObj example_identities"
      "JObj example_scores" example_out] example_merge m
  have "Total (example_out ! 0) = component_sum exact_rounding (example_out ! 0) \<and>
        ((\<forall>x. exact_rounding x \<noteq> NaN) \<and> is_finite (OverallPseudocode (example_out ! 0)) \<and>
          is_finite (OverallCoding (example_out ! 0)) \<and>
          is_finite (OverallDailyTest (example_out ! 0)) \<longrightarrow>
            float_eq (Total (example_out ! 0)) (component_sum exact_rounding (example_out ! 0)))"
    by blast
  with f exact_rounding_not_NaN
  have "Total (example_out ! 0) = component_sum exact_rounding (example_out ! 0) \<and>
        float_eq (Total (example_out ! 0)) (component_sum exact_rounding (example_out ! 0))"
    by blast
  moreover have "Total (example_out ! 0) = Finite 80" by (simp add: example_out_def)
  ultimately show ?thesis using example_merge f by blast
qed

text \<open>
  C6. The claim: ranks follow competition ranking: the first record has rank 1; the
  record at index \<open>i + 1\<close> has rank \<open>i + 2\<close> when its total is strictly below the total of
  the record at index \<open>i\<close>, and the rank of that record otherwise; equivalently the rank
  of a record is 1 plus the number of records with a strictly greater total. The two
  are not equivalent in the code: in the merge of \<open>nan_identities\<close> and \<open>nan_scores\<close> the
  totals are \<open>100.0, nan, 90.0\<close> and the ranks 1, 1, 1, where one record has a total
  strictly greater than 90.0 and the count gives the third record the rank 2.
\<close>

theorem rank_count_counterexample:
  "merge_records exact_rounding (JObj nan_identities) (JObj nan_scores) = Inr nan_out \<and>
   map Total nan_out = [Finite 100, NaN, Finite 90] \<and>
   map Rank nan_out = [1, 1, 1] \<and>
   Rank (nan_out ! 2) = 1 \<and>
   1 + length (filter (\<lambda>r. float_lt (Total (nan_out ! 2)) (Total r)) nan_out) = 2"
  using nan_merge by (simp add: nan_out_def)

text \<open>
  C6, as the code has it. The first record has rank 1; the record at index \<open>i + 1\<close> has
  rank \<open>i + 2\<close>, its 1-based position, when its total is strictly below the total of the
  record at index \<open>i\<close>, and the rank of that record otherwise; when no total is NaN, the
  rank of a record is 1 plus the number of records with a strictly greater total.
  Records with totals 90, 90, 80 get the ranks 1, 1, 3.
\<close>

theorem competition_ranking:
  assumes "merge_records rnd student_core manual_overall = Inr out"
  shows "(out \<noteq> [] \<longrightarrow> Rank (out ! 0) = 1) \<and>
         (\<forall>i. Suc i < length out \<longrightarrow>
            Rank (out ! Suc i) =
              (if float_lt (Total (out ! Suc i)) (Total (out ! i)) then i + 2
               else Rank (out ! i))) \<and>
         (list_all (\<lambda>r. Total r \<noteq> NaN) out \<longrightarrow>
            (\<forall>i<length out.
               Rank (out ! i) =
                 1 + length (filter (\<lambda>r. float_lt (Total (out ! i)) (Total r)) out))) \<and>
         (\<forall>records. map Total records = [Finite 90, Finite 90, Finite 80] \<longrightarrow>
            map Rank (assign_ranks records) = [1, 1, 3])"
proof -
  from merge_records_Inr[OF assms] obtain records where
    out: "out = assign_ranks (py_sort_reverse Total records)"
    by blast
  define xs where "xs = py_sort_reverse Total records"
  have out_xs: "out = rank_loop ([] @ xs) (length ([] :: scored list)) 1 xs"
    using out by (simp add: xs_def assign_ranks_def)
  have len: "length out = length xs"
    using out by (simp add: xs_def length_assign_ranks)
  have tot: "\<And>i. i < length xs \<Longrightarrow> Total (out ! i) = Total (xs ! i)"
    using out by (simp add: xs_def Total_assign_ranks_nth)
  have map_tot: "map Total out = map Total xs"
    using out by (simp add: xs_def map_Total_assign_ranks)
  have first: "out \<noteq> [] \<longrightarrow> Rank (out ! 0) = 1"
  proof
    assume "out \<noteq> []"
    with len have "xs \<noteq> []" by auto
    then have "Rank (rank_loop xs 0 1 xs ! 0) = 1" by (rule rank_loop_first)
    with out_xs show "Rank (out ! 0) = 1" by simp
  qed
  have step: "\<forall>i. Suc i < length out \<longrightarrow>
            Rank (out ! Suc i) =
              (if float_lt (Total (out ! Suc i)) (Total (out ! i)) then i + 2
               else Rank (out ! i))"
  proof (intro allI impI)
    fix i assume "Suc i < length out"
    with len have i: "Suc i < length xs" by simp
    from rank_loop_step[OF i, of "[]" 1]
    have "Rank (out ! Suc i) =
            (if float_lt (Total (xs ! Suc i)) (Total (xs ! i)) then i + 2 else Rank (out ! i))"
      by (simp add: out_xs)
    with i tot[of i] tot[of "Suc i"]
    show "Rank (out ! Suc i) =
            (if float_lt (Total (out ! Suc i)) (Total (out ! i)) then i + 2
             else Rank (out ! i))"
      by simp
  qed
  have cnt: "list_all (\<lambda>r. Total r \<noteq> NaN) out \<longrightarrow>
            (\<forall>i<length out.
               Rank (out ! i) =
                 1 + length (filter (\<lambda>r. float_lt (Total (out ! i)) (Total r)) out))"
  proof (intro allI impI)
    fix i assume nn_out: "list_all (\<lambda>r. Total r \<noteq> NaN) out" and "i < length out"
    with len have i: "i < length xs" by simp
    from nn_out have no: "NaN \<notin> set (map Total out)" by (auto simp: list_all_iff)
    have nx: "NaN \<notin> set (map Total xs)" using no unfolding map_tot .
    have nn_xs: "\<forall>r\<in>set xs. Total r \<noteq> NaN"
    proof
      fix r assume "r \<in> set xs"
      then have "Total r \<in> set (map Total xs)" by simp
      with nx show "Total r \<noteq> NaN" by metis
    qed
    then have nn_rec: "\<forall>r\<in>set records. Total r \<noteq> NaN"
      by (simp add: xs_def set_py_sort_reverse)
    have srt: "sorted_wrt (\<lambda>a b. float_ge (Total a) (Total b)) ([] @ xs)"
      using sorted_py_sort_reverse[OF nn_rec] by (simp add: xs_def)
    have nn: "\<forall>r\<in>set ([] @ xs). Total r \<noteq> NaN" using nn_xs by simp
    have "Rank (rank_loop ([] @ xs) (length ([] :: scored list)) 1 xs ! i) =
            1 + length (filter (\<lambda>r. float_lt (Total (xs ! i)) (Total r)) ([] @ xs))"
      using srt nn _ _ i by (rule rank_loop_count) simp_all
    then have r: "Rank (out ! i) =
                    1 + length (filter (\<lambda>r. float_lt (Total (xs ! i)) (Total r)) xs)"
      by (simp add: out_xs)
    have "length (filter (\<lambda>r. float_lt (Total (xs ! i)) (Total r)) xs)
            = length (filter (\<lambda>t. float_lt (Total (xs ! i)) t) (map Total xs))"
      by (simp add: filter_map comp_def)
    also have "\<dots> = length (filter (\<lambda>t. float_lt (Total (xs ! i)) t) (map Total out))"
      by (simp only: map_tot)
    also have "\<dots> = length (filter (\<lambda>r. float_lt (Total (xs ! i)) (Total r)) out)"
      by (simp add: filter_map comp_def)
    finally show "Rank (out ! i) =
                    1 + length (filter (\<lambda>r. float_lt (Total (out ! i)) (Total r)) out)"
      using r tot[OF i] by simp
  qed
  have ex: "\<forall>records. map Total records = [Finite 90, Finite 90, Finite 80] \<longrightarrow>
            map Rank (assign_ranks records) = [1, 1, 3]"
  proof (intro allI impI)
    fix records :: "scored list"
    assume m: "map Total records = [Finite 90, Finite 90, Finite 80]"
    then obtain a b c where abc: "records = [a, b, c]"
      by (auto simp: map_eq_Cons_conv)
    with m have "Total a = Finite 90" "Total b = Finite 90" "Total c = Finite 80" by simp_all
    with abc show "map Rank (assign_ranks records) = [1, 1, 3]"
      by (simp add: assign_ranks_def Rank_extend)
  qed
  from first step cnt ex show ?thesis by blast
qed

theorem competition_ranking_witness:
  "merge_records exact_rounding (JObj example_identities) (JObj example_scores)
     = Inr example_out \<and>
   list_all (\<lambda>r. Total r \<noteq> NaN) example_out \<and>
   map Total example_out = [Finite 80, Finite 80, Finite 0] \<and>
   map Rank example_out = [1, 1, 3] \<and>
   Rank (example_out ! 0) = 1 \<and> Rank (example_out ! Suc 0) = Rank (example_out ! 0) \<and>
   Rank (example_out ! 2) =
     1 + length (filter (\<lambda>r. float_lt (Total (example_out ! 2)) (Total r)) example_out)"
proof -
  have nn: "list_all (\<lambda>r. Total r \<noteq> NaN) example_out" by (simp add: example_out_def)
  have l: "(2::nat) < length example_out" "Suc 0 < length example_out"
    by (simp_all add: example_out_def)
  from competition_ranking[OF example_merge] nn l
  have "Rank (example_out ! Suc 0) =
          (if float_lt (Total (example_out ! Suc 0)) (Total (example_out ! 0)) then 0 + 2
           else Rank (example_out ! 0))"
    and c: "Rank (example_out ! 2) =
          1 + length (filter (\<lambda>r. float_lt (Total (example_out ! 2)) (Total r)) example_out)"
    by blast+
  then have "Rank (example_out ! Suc 0) = Rank (example_out ! 0)"
    by (simp add: example_out_def)
  with example_merge nn c show ?thesis by (simp add: example_out_def)
qed

text \<open>
  C7. The claim: the merge output is sorted by total, descending, so that
  \<open>Total[i] >= Total[i+1]\<close> for all adjacent records, and the sort is stable. The order
  fails in the merge of \<open>nan_identities\<close> and \<open>nan_scores\<close>: the sort leaves the totals
  \<open>100.0, nan, 90.0\<close> as they are, and neither \<open>100.0 >= nan\<close> nor \<open>nan >= 90.0\<close> is true.
\<close>

theorem sorted_descending_counterexample:
  "merge_records exact_rounding (JObj nan_identities) (JObj nan_scores) = Inr nan_out \<and>
   map Total nan_out = [Finite 100, NaN, Finite 90] \<and>
   float_ge (Total (nan_out ! 0)) (Total (nan_out ! 1)) = False \<and>
   float_ge (Total (nan_out ! 1)) (Total (nan_out ! 2)) = False"
  using nan_merge by (simp add: nan_out_def)

text \<open>
  C7, as the code has it. When no total is NaN, the merge output is sorted by total,
  descending (each total is at least the next one), and the sort is stable: the output
  records of any one total are the records built for the identities, in the
  identities' iteration order, that have that total.
\<close>

theorem merge_sorted_and_stable:
  assumes "build_records rnd identities manual_overall = Inr records"
    and "list_all (\<lambda>r. Total r \<noteq> NaN) records"
  shows "\<exists>out. merge_records rnd (JObj identities) manual_overall = Inr out \<and>
           sorted_wrt (\<lambda>a b. float_ge (Total a) (Total b)) out \<and>
           (\<forall>i. Suc i < length out \<longrightarrow> float_ge (Total (out ! i)) (Total (out ! Suc i))) \<and>
           (\<forall>t. filter (\<lambda>r. float_eq (Total r) t) (map scored.truncate out)
                  = filter (\<lambda>r. float_eq (Total r) t) records)"
proof -
  define xs where "xs = py_sort_reverse Total records"
  define out where "out = assign_ranks xs"
  from assms(2) have nn: "\<forall>r\<in>set records. Total r \<noteq> NaN" by (simp add: list_all_iff)
  have m: "merge_records rnd (JObj identities) manual_overall = Inr out"
    using merge_records_build[OF assms(1)] by (simp add: out_def xs_def)
  have tr: "map scored.truncate out = xs"
    by (simp add: out_def truncate_assign_ranks)
  have "sorted_wrt (\<lambda>a b. float_ge (Total a) (Total b)) xs"
    unfolding xs_def using nn by (rule sorted_py_sort_reverse)
  then have "sorted_wrt (\<lambda>a b. float_ge (Total a) (Total b)) (map scored.truncate out)"
    by (simp only: tr)
  then have srt: "sorted_wrt (\<lambda>a b. float_ge (Total a) (Total b)) out"
    by (simp add: sorted_wrt_map Total_truncate)
  have adj: "\<forall>i. Suc i < length out \<longrightarrow> float_ge (Total (out ! i)) (Total (out ! Suc i))"
  proof (intro allI impI)
    fix i assume "Suc i < length out"
    with srt show "float_ge (Total (out ! i)) (Total (out ! Suc i))"
      by (simp add: sorted_wrt_iff_nth_less)
  qed
  have stable: "\<forall>t. filter (\<lambda>r. float_eq (Total r) t) (map scored.truncate out)
                  = filter (\<lambda>r. float_eq (Total r) t) records"
  proof
    fix t
    have nnx: "\<forall>r\<in>set xs. Total r \<noteq> NaN" using nn by (simp add: xs_def set_py_sort_reverse)
    have "filter (\<lambda>r. float_eq (Total r) t) xs = filter (\<lambda>r. Total r = t) xs"
      using nnx by (intro filter_cong) (auto simp: float_eq_iff)
    also have "\<dots> = filter (\<lambda>r. Total r = t) records"
      unfolding xs_def using nn by (rule stable_py_sort_reverse)
    also have "\<dots> = filter (\<lambda>r. float_eq (Total r) t) records"
      using nn by (intro filter_cong) (auto simp: float_eq_iff)
    finally show "filter (\<lambda>r. float_eq (Total r) t) (map scored.truncate out)
                    = filter (\<lambda>r. float_eq (Total r) t) records"
      by (simp only: tr)
  qed
  from m srt adj stable show ?thesis by blast
qed

theorem merge_sorted_and_stable_witness:
  "build_records exact_rounding example_identities (JObj example_scores) = Inr example_records \<and>
   list_all (\<lambda>r. Total r \<noteq> NaN) example_records \<and>
   merge_records exact_rounding (JObj example_identities) (JObj example_scores)
     = Inr example_out \<and>
   float_ge (Total (example_out ! 1)) (Total (example_out ! Suc 1)) \<and>
   map RollNo (filter (\<lambda>r. float_eq (Total r) (Finite 80)) (map scored.truncate example_out))
     = [JStr ''R1'', JStr ''X3''] \<and>
   map RollNo (filter (\<lambda>r. float_eq (Total r) (Finite 80)) example_records)
     = [JStr ''R1'', JStr ''X3'']"
proof -
  have nn: "list_all (\<lambda>r. Total r \<noteq> NaN) example_records"
    by (simp add: example_records_def)
  have l: "Suc 1 < length example_out" by (simp add: example_out_def)
  from merge_sorted_and_stable[OF example_build nn] example_merge l
  have "float_ge (Total (example_out ! 1)) (Total (example_out ! Suc 1))"
    and "filter (\<lambda>r. float_eq (Total r) (Finite 80)) (map scored.truncate example_out)
          = filter (\<lambda>r. float_eq (Total r) (Finite 80)) example_records"
    by auto
  moreover have "map RollNo (filter (\<lambda>r. float_eq (Total r) (Finite 80)) example_records)
                   = [JStr ''R1'', JStr ''X3'']"
    by (simp add: example_records_def)
  ultimately show ?thesis using example_build example_merge nn by simp
qed



section \<open>Properties of the object extraction\<close>








end
